theory Spec2Isabelle
  imports Main "HOL-Library.Multiset" "HOL-Library.Sublist"
begin

section \<open>Data model\<close>

text \<open>
  Configuration values are JavaScript values: \<open>undefined\<close>, \<open>null\<close>, booleans, numbers,
  strings, arrays and plain objects. An object is an association list of its own
  enumerable properties in insertion order; a well-formed object has no duplicate key.
\<close>

datatype jval =
    JUndef
  | JNull
  | JBool bool
  | JNum int
  | JStr string
  | JArr "jval list"
  | JObj "(string \<times> jval) list"

type_synonym obj = "(string \<times> jval) list"

text \<open>
  The failures of the collaborators. \<open>bootstrap\<close> itself creates none of them: it only
  lets them propagate. \<open>TypeError\<close> is the promise library's rejection of a value it
  cannot iterate. \<open>StageFailure stage cause\<close> is the failure the specification speaks
  of, one that names the stage in which the cause arose; no line of \<open>bootstrap.js\<close>
  builds one.
\<close>

datatype error =
    ConfigLoadError string
  | EnvParseError string
  | IdentityError
  | InstanceBuildError
  | EventHandlerError string string
  | PluginNotFoundError string
  | PluginInitError string
  | TypeError
  | StageFailure string error

text \<open>\<open>c.k\<close>: reading a property; an absent property reads as \<open>undefined\<close>.\<close>

definition get_prop :: "obj \<Rightarrow> string \<Rightarrow> jval" where
  "get_prop c k = (case map_of c k of None \<Rightarrow> JUndef | Some v \<Rightarrow> v)"

text \<open>\<open>c.k = v\<close>: an existing property keeps its place, a new one is appended.\<close>

fun set_prop :: "string \<Rightarrow> jval \<Rightarrow> obj \<Rightarrow> obj" where
  "set_prop k v [] = [(k, v)]"
| "set_prop k v ((k', v') # r) =
     (if k = k' then (k, v) # r else (k', v') # set_prop k v r)"

text \<open>lodash \<open>_.has(c, k)\<close>: \<open>k\<close> is an own property of \<open>c\<close>, whatever its value.\<close>

definition has :: "obj \<Rightarrow> string \<Rightarrow> bool" where
  "has c k = (k \<in> set (map fst c))"

text \<open>
  lodash \<open>_.isEmpty\<close>: \<open>undefined\<close>, \<open>null\<close>, booleans and numbers are empty; a string
  or an array is empty when its length is 0, an object when it has no own property.
\<close>

fun isEmpty :: "jval \<Rightarrow> bool" where
  "isEmpty JUndef = True"
| "isEmpty JNull = True"
| "isEmpty (JBool b) = True"
| "isEmpty (JNum n) = True"
| "isEmpty (JStr s) = (s = [])"
| "isEmpty (JArr xs) = (xs = [])"
| "isEmpty (JObj kvs) = (kvs = [])"

text \<open>JavaScript truthiness, as \<open>||\<close> tests it.\<close>

fun truthy :: "jval \<Rightarrow> bool" where
  "truthy JUndef = False"
| "truthy JNull = False"
| "truthy (JBool b) = b"
| "truthy (JNum n) = (n \<noteq> 0)"
| "truthy (JStr s) = (s \<noteq> [])"
| "truthy (JArr xs) = True"
| "truthy (JObj kvs) = True"

fun is_mapping :: "jval \<Rightarrow> bool" where
  "is_mapping (JObj kvs) = True"
| "is_mapping v = False"

section \<open>The config helpers of \<open>./config\<close>\<close>

text \<open>
  Modelled from the spec: \<open>helpers.merge\<close> of \<open>./config\<close>, which is not among the
  sources. It deep-merges two mappings: for a key present in both, the later value
  wins; two mappings merge recursively; any other value (a sequence too) replaces the
  earlier one wholesale. The inputs are not changed.
\<close>

fun merge_spec :: "obj \<Rightarrow> obj \<Rightarrow> obj" where
  "merge_spec a [] = a"
| "merge_spec a ((k, vb) # bs) =
     merge_spec
       (set_prop k
          (case vb of
             JObj mb \<Rightarrow>
               (case map_of a k of
                  Some (JObj ma) \<Rightarrow> JObj (merge_spec ma mb)
                | _ \<Rightarrow> vb)
           | _ \<Rightarrow> vb) a)
       bs"

text \<open>
  A configuration file as \<open>loadFiles\<close> finds it: absent, present with contents that do
  not parse, or present with a parsed mapping.
\<close>

datatype conf_file = Missing | Unparsable | Parsed obj

text \<open>
  Modelled from the spec: \<open>helpers.loadFiles\<close> of \<open>./config\<close>, which is not among the
  sources. It reads the files in order and deep-merges their contents; the first missing
  or unparsable file is a \<open>ConfigLoadError\<close> naming that file, with no partial result.
  An entry of the list that is not a path string cannot be read either.
\<close>

fun load_paths :: "(string \<Rightarrow> conf_file) \<Rightarrow> jval list \<Rightarrow> obj \<Rightarrow> error + obj" where
  "load_paths fs [] acc = Inr acc"
| "load_paths fs (JStr p # ps) acc =
     (case fs p of
        Parsed c \<Rightarrow> load_paths fs ps (merge_spec acc c)
      | _ \<Rightarrow> Inl (ConfigLoadError p))"
| "load_paths fs (v # ps) acc = Inl (ConfigLoadError [])"

text \<open>
  Modelled from the spec: the argument of \<open>helpers.loadFiles\<close> is an ordered sequence
  of paths; any other value is treated as a source that cannot be read.
\<close>

fun loadFiles_spec :: "(string \<Rightarrow> conf_file) \<Rightarrow> jval \<Rightarrow> error + obj" where
  "loadFiles_spec fs (JArr ps) = load_paths fs ps []"
| "loadFiles_spec fs v = Inl (ConfigLoadError [])"

section \<open>Collaborators and observations\<close>

text \<open>
  The Instance that \<open>require('./lando')(config)\<close> returns: its \<open>config\<close>, and
  everything else it owns (event bus, plugin loader, logger, attached capabilities) as
  a state \<open>ext\<close> that only the collaborators interpret.
\<close>

record 'x lando =
  config :: obj
  ext :: 'x

text \<open>
  One asynchronous continuation of a collaborator: it runs in a later turn of the event
  loop on the Instance as it is then, and either fails or leaves the Instance updated.
\<close>

type_synonym 'x seg = "'x lando \<Rightarrow> error + 'x lando"

text \<open>
  What a call of \<open>events.emit\<close> or \<open>plugins.load\<close> does before it returns: it throws,
  or it returns a promise that is already rejected, or it returns (having updated the
  Instance) a promise that is fulfilled once the listed continuations have all run; no
  continuation means the promise is fulfilled, or the value is not a promise at all.
  A promise that never settles is not represented.
\<close>

datatype 'x call = Throw error | RejectNow error | Return "'x lando" "'x seg list"

text \<open>The second argument of \<open>emit\<close>: the Instance's config object, or the Instance.\<close>

datatype payload = ConfigRef obj | InstanceRef

text \<open>
  Everything \<open>bootstrap\<close> calls and does not define. \<open>merge\<close>, \<open>defaults\<close>,
  \<open>loadFiles\<close> and \<open>loadEnvs\<close> are the helpers of \<open>./config\<close>; \<open>hasher\<close> is
  \<open>object-hash\<close>; \<open>factory\<close> is \<open>require('./lando')\<close>; \<open>emit\<close> is
  \<open>lando.events.emit\<close> and \<open>load\<close> is \<open>lando.plugins.load\<close>; \<open>iterate\<close> is what the
  promise library's \<open>.map\<close> makes of a value that is not an array (\<open>None\<close>: it rejects
  with a \<open>TypeError\<close>).
\<close>

record 'x collab =
  merge :: "obj \<Rightarrow> obj \<Rightarrow> obj"
  defaults :: obj
  loadFiles :: "jval \<Rightarrow> error + obj"
  loadEnvs :: "jval \<Rightarrow> error + obj"
  hasher :: "jval \<Rightarrow> error + string"
  factory :: "obj \<Rightarrow> error + 'x lando"
  emit :: "string \<Rightarrow> payload \<Rightarrow> 'x lando \<Rightarrow> 'x call"
  load :: "jval \<Rightarrow> jval \<Rightarrow> 'x lando \<Rightarrow> 'x call"
  iterate :: "jval \<Rightarrow> jval list option"

text \<open>
  The trace records, in program order, every call \<open>bootstrap\<close> makes to a collaborator,
  and the fulfilment of the promises it waits for.
\<close>

datatype event =
    Defaults
  | Merge
  | LoadFiles jval
  | LoadEnvs jval
  | Hash jval
  | Build obj
  | Log string string
  | Emit string payload
  | EmitDone string
  | LoadCall jval jval
  | LoadDone jval

section \<open>The synchronous part of \<open>bootstrap\<close>\<close>

text \<open>
  Lines 81 to 91: the config is \<open>defaults\<close> merged with the options, then with the
  files' config when \<open>configSources\<close> is not empty, then with the environment's config
  when the config has an \<open>envPrefix\<close>. A helper that throws ends the function.
\<close>

definition resolved_config :: "'x collab \<Rightarrow> obj \<Rightarrow> (error + obj) \<times> event list" where
  "resolved_config c options =
     (let config0 = merge c (defaults c) options;
          t0 = [Defaults, Merge];
          (r1, t1) =
            (if \<not> isEmpty (get_prop config0 ''configSources'') then
               (case loadFiles c (get_prop config0 ''configSources'') of
                  Inl e \<Rightarrow> (Inl e, t0 @ [LoadFiles (get_prop config0 ''configSources'')])
                | Inr f \<Rightarrow>
                    (Inr (merge c config0 f),
                     t0 @ [LoadFiles (get_prop config0 ''configSources''), Merge]))
             else (Inr config0, t0))
      in case r1 of
           Inl e \<Rightarrow> (Inl e, t1)
         | Inr config1 \<Rightarrow>
             (if has config1 ''envPrefix'' then
                (case loadEnvs c (get_prop config1 ''envPrefix'') of
                   Inl e \<Rightarrow> (Inl e, t1 @ [LoadEnvs (get_prop config1 ''envPrefix'')])
                 | Inr v \<Rightarrow>
                     (Inr (merge c config1 v),
                      t1 @ [LoadEnvs (get_prop config1 ''envPrefix''), Merge]))
              else (Inr config1, t1)))"

text \<open>Line 94: \<open>config.id = hasher(config.userConfRoot)\<close>.\<close>

definition identified_config :: "'x collab \<Rightarrow> obj \<Rightarrow> (error + obj) \<times> event list" where
  "identified_config c options =
     (case resolved_config c options of
        (Inl e, t) \<Rightarrow> (Inl e, t)
      | (Inr cfg, t) \<Rightarrow>
          (case hasher c (get_prop cfg ''userConfRoot'') of
             Inl e \<Rightarrow> (Inl e, t @ [Hash (get_prop cfg ''userConfRoot'')])
           | Inr h \<Rightarrow>
               (Inr (set_prop ''id'' (JStr h) cfg),
                t @ [Hash (get_prop cfg ''userConfRoot'')])))"

text \<open>Lines 78 to 101: up to the Instance and the two opening log lines.\<close>

definition bootstrap_sync :: "'x collab \<Rightarrow> obj \<Rightarrow> (error + 'x lando) \<times> event list" where
  "bootstrap_sync c options =
     (case identified_config c options of
        (Inl e, t) \<Rightarrow> (Inl e, t)
      | (Inr cfg, t) \<Rightarrow>
          (case factory c cfg of
             Inl e \<Rightarrow> (Inl e, t @ [Build cfg])
           | Inr l \<Rightarrow>
               (Inr l,
                t @ [Build cfg, Log ''info'' ''Bootstraping...'',
                     Log ''silly'' ''It's not particularly silly, is it?''])))"

section \<open>Promises\<close>

text \<open>
  A settled promise, and what a JavaScript call hands back: \<open>Inl e\<close> is the exception
  \<open>e\<close> thrown by the call, \<open>Inr\<close> the value returned.
\<close>

datatype 'x promise = Rejected error | Fulfilled "'x lando"

datatype 'x retval = Undefined | Promise "'x promise"

text \<open>
  Waiting for a promise with nothing else in flight: its continuations run one after the
  other, and the first failure rejects it.
\<close>

fun await :: "'x seg list \<Rightarrow> 'x lando \<Rightarrow> error + 'x lando" where
  "await [] l = Inr l"
| "await (g # gs) l = (case g l of Inl e \<Rightarrow> Inl e | Inr l' \<Rightarrow> await gs l')"

text \<open>
  \<open>lando.events.emit(name, payload)\<close> followed by \<open>.then\<close>: the call, then the wait for
  the promise it returned.
\<close>

definition call_emit ::
  "'x collab \<Rightarrow> string \<Rightarrow> payload \<Rightarrow> 'x lando \<Rightarrow> (error + 'x promise) \<times> event list" where
  "call_emit c name pl l =
     (case emit c name pl l of
        Throw e \<Rightarrow> (Inl e, [Emit name pl])
      | RejectNow e \<Rightarrow> (Inr (Rejected e), [Emit name pl])
      | Return l1 segs \<Rightarrow>
          (case await segs l1 of
             Inl e \<Rightarrow> (Inr (Rejected e), [Emit name pl])
           | Inr l2 \<Rightarrow> (Inr (Fulfilled l2), [Emit name pl, EmitDone name])))"

subsection \<open>The promise library's \<open>.map\<close>\<close>

text \<open>
  \<open>.map(mapper)\<close> without a concurrency option calls the mapper for every entry of the
  array, in index order, in one synchronous loop. It does not wait for the promise one
  call returned before it makes the next call. A mapper that throws, or returns a
  rejected promise, rejects the result at once and the remaining entries are skipped.
  Each call reads \<open>lando.config.pluginDirs\<close> as it is at that moment.

  The result of the loop is the Instance and the plugins whose promise is still pending,
  each with its remaining continuations.
\<close>

type_synonym 'x pending = "(jval \<times> 'x seg list) list"

fun sweep ::
  "'x collab \<Rightarrow> jval list \<Rightarrow> 'x lando \<Rightarrow> (error + 'x lando \<times> 'x pending) \<times> event list" where
  "sweep c [] l = (Inr (l, []), [])"
| "sweep c (p # ps) l =
     (case load c p (get_prop (config l) ''pluginDirs'') l of
        Throw e \<Rightarrow> (Inl e, [LoadCall p (get_prop (config l) ''pluginDirs'')])
      | RejectNow e \<Rightarrow> (Inl e, [LoadCall p (get_prop (config l) ''pluginDirs'')])
      | Return l1 segs \<Rightarrow>
          (case sweep c ps l1 of
             (Inl e, t) \<Rightarrow>
               (Inl e,
                LoadCall p (get_prop (config l) ''pluginDirs'') #
                (if segs = [] then [LoadDone p] else []) @ t)
           | (Inr (l2, pend), t) \<Rightarrow>
               (Inr (l2, if segs = [] then pend else (p, segs) # pend),
                LoadCall p (get_prop (config l) ''pluginDirs'') #
                (if segs = [] then [LoadDone p] else []) @ t)))"

text \<open>
  The pending loads then advance in the later turns of the event loop, one continuation
  at a time. Which load advances next depends on the I/O each one waits for: the
  schedule \<open>sch\<close> lists the choices (an exhausted schedule picks the first pending
  load). The result is fulfilled when no load is pending, and rejected by the first
  continuation that fails; the trace ends where the result settles.
\<close>

definition pick :: "nat list \<Rightarrow> nat \<Rightarrow> nat" where
  "pick sch n = (case sch of [] \<Rightarrow> 0 | i # _ \<Rightarrow> i mod n)"

definition drop_nth :: "nat \<Rightarrow> 'a list \<Rightarrow> 'a list" where
  "drop_nth i xs = take i xs @ drop (Suc i) xs"

definition load_weight :: "'x pending \<Rightarrow> nat" where
  "load_weight pend = sum_list (map (\<lambda>q. Suc (length (snd q))) pend)"

function drain ::
  "nat list \<Rightarrow> 'x pending \<Rightarrow> 'x lando \<Rightarrow> (error + 'x lando) \<times> event list" where
  "drain sch pend l =
     (if pend = [] then (Inr l, [])
      else
        (case (case snd (pend ! pick sch (length pend)) of
                 [] \<Rightarrow> Inr l
               | g # rest \<Rightarrow> g l) of
           Inl e \<Rightarrow> (Inl e, [])
         | Inr l1 \<Rightarrow>
             (if tl (snd (pend ! pick sch (length pend))) = [] then
                (case drain (tl sch) (drop_nth (pick sch (length pend)) pend) l1 of
                   (r, t) \<Rightarrow> (r, LoadDone (fst (pend ! pick sch (length pend))) # t))
              else
                drain (tl sch)
                  (pend[pick sch (length pend) :=
                          (fst (pend ! pick sch (length pend)),
                           tl (snd (pend ! pick sch (length pend))))])
                  l1)))"
  by pat_completeness auto

termination drain
proof (relation "measure (\<lambda>(sch, pend, l). load_weight pend)")
  show "wf (measure (\<lambda>(sch, pend, l). load_weight pend))" by simp
next
  fix sch :: "nat list" and pend :: "'a pending" and l :: "'a lando" and l1
  assume "pend \<noteq> []"
  then have i: "pick sch (length pend) < length pend"
    by (simp add: pick_def split: list.splits)
  then have "pend = take (pick sch (length pend)) pend @
      (pend ! pick sch (length pend)) # drop (Suc (pick sch (length pend))) pend"
    by (simp add: id_take_nth_drop)
  then have "load_weight pend = load_weight (take (pick sch (length pend)) pend @
      (pend ! pick sch (length pend)) # drop (Suc (pick sch (length pend))) pend)"
    by simp
  then have "load_weight (drop_nth (pick sch (length pend)) pend) < load_weight pend"
    by (simp add: load_weight_def drop_nth_def)
  then show "((tl sch, drop_nth (pick sch (length pend)) pend, l1), sch, pend, l)
       \<in> measure (\<lambda>(sch, pend, l). load_weight pend)"
    by simp
next
  fix sch :: "nat list" and pend :: "'a pending" and l :: "'a lando" and l1
  assume ne: "pend \<noteq> []" and more: "tl (snd (pend ! pick sch (length pend))) \<noteq> []"
  define i where "i = pick sch (length pend)"
  from ne have i: "i < length pend"
    by (simp add: i_def pick_def split: list.splits)
  from more have len: "length (tl (snd (pend ! i))) < length (snd (pend ! i))"
    unfolding i_def by (cases "snd (pend ! pick sch (length pend))") auto
  have upd: "pend[i := (fst (pend ! i), tl (snd (pend ! i)))] =
      take i pend @ (fst (pend ! i), tl (snd (pend ! i))) # drop (Suc i) pend"
    using i by (simp add: upd_conv_take_nth_drop)
  have "pend = take i pend @ (pend ! i) # drop (Suc i) pend"
    using i by (simp add: id_take_nth_drop)
  then have "load_weight pend = load_weight (take i pend @ (pend ! i) # drop (Suc i) pend)"
    by simp
  then have "load_weight (pend[i := (fst (pend ! i), tl (snd (pend ! i)))]) < load_weight pend"
    using len by (simp add: upd load_weight_def)
  then show "((tl sch, pend[pick sch (length pend) :=
              (fst (pend ! pick sch (length pend)), tl (snd (pend ! pick sch (length pend))))], l1),
            sch, pend, l) \<in> measure (\<lambda>(sch, pend, l). load_weight pend)"
    by (simp add: i_def)
qed

declare drain.simps [simp del]

text \<open>Line 138: \<open>.map\<close> over the plugin list, the loop and then the pending loads.\<close>

definition map_plugins ::
  "'x collab \<Rightarrow> nat list \<Rightarrow> jval list \<Rightarrow> 'x lando \<Rightarrow> (error + 'x lando) \<times> event list" where
  "map_plugins c sch ps l =
     (case sweep c ps l of
        (Inl e, t) \<Rightarrow> (Inl e, t)
      | (Inr (l1, pend), t) \<Rightarrow> (case drain sch pend l1 of (r, t') \<Rightarrow> (r, t @ t')))"

section \<open>The function that \<open>bootstrap\<close> wraps\<close>

text \<open>Line 134: \<open>lando.config.plugins || []\<close>.\<close>

definition plugins_or_empty :: "obj \<Rightarrow> jval" where
  "plugins_or_empty cfg =
     (if truthy (get_prop cfg ''plugins'') then get_prop cfg ''plugins'' else JArr [])"

text \<open>What \<open>.map\<close> iterates: the entries of an array; for any other value see \<open>iterate\<close>.\<close>

definition as_array :: "'x collab \<Rightarrow> jval \<Rightarrow> jval list option" where
  "as_array c v = (case v of JArr ps \<Rightarrow> Some ps | _ \<Rightarrow> iterate c v)"

text \<open>
  Lines 158 to 166: the last two \<open>.then\<close> callbacks, which run when \<open>.map\<close> is fulfilled.
  An exception inside a callback rejects the promise of that \<open>.then\<close>.
\<close>

definition post_bootstrap :: "'x collab \<Rightarrow> 'x lando \<Rightarrow> 'x promise \<times> event list" where
  "post_bootstrap c l2 =
     (case call_emit c ''post-bootstrap'' InstanceRef l2 of
        (Inl e, t3) \<Rightarrow> (Rejected e, t3)
      | (Inr (Rejected e), t3) \<Rightarrow> (Rejected e, t3)
      | (Inr (Fulfilled l3), t3) \<Rightarrow>
          (Fulfilled l3, t3 @ [Log ''info'' ''Bootstrap completed.'']))"

text \<open>
  Lines 128 to 166: the chain of \<open>.then\<close> and \<open>.map\<close> callbacks, which starts when the
  promise of the \<open>pre-bootstrap\<close> emission is fulfilled. No callback handles a rejection,
  so the first one reaches the promise that the chain returns.
\<close>

definition then_chain ::
  "'x collab \<Rightarrow> nat list \<Rightarrow> 'x lando \<Rightarrow> 'x promise \<times> event list" where
  "then_chain c sch l1 =
     (case as_array c (plugins_or_empty (config l1)) of
        None \<Rightarrow> (Rejected TypeError, [Log ''debug'' ''Config set: %j''])
      | Some ps \<Rightarrow>
          (case map_plugins c sch ps l1 of
             (Inl e, t2) \<Rightarrow> (Rejected e, Log ''debug'' ''Config set: %j'' # t2)
           | (Inr l2, t2) \<Rightarrow>
               (case post_bootstrap c l2 of
                  (p, t3) \<Rightarrow> (p, Log ''debug'' ''Config set: %j'' # t2 @ t3))))"

text \<open>
  Lines 75 to 168, the function given to \<open>_.once\<close>. An exception of the synchronous
  part, or of the first \<open>emit\<close> call, leaves the function as an exception. Otherwise
  the function returns the promise of the chain; when the \<open>pre-bootstrap\<close> emission is
  rejected, no callback of the chain runs.
\<close>

definition bootstrap_body ::
  "'x collab \<Rightarrow> nat list \<Rightarrow> obj \<Rightarrow> (error + 'x promise) \<times> event list" where
  "bootstrap_body c sch options =
     (case bootstrap_sync c options of
        (Inl e, t0) \<Rightarrow> (Inl e, t0)
      | (Inr l0, t0) \<Rightarrow>
          (case call_emit c ''pre-bootstrap'' (ConfigRef (config l0)) l0 of
             (Inl e, t1) \<Rightarrow> (Inl e, t0 @ t1)
           | (Inr (Rejected e), t1) \<Rightarrow> (Inr (Rejected e), t0 @ t1)
           | (Inr (Fulfilled l1), t1) \<Rightarrow>
               (case then_chain c sch l1 of (p, t) \<Rightarrow> (Inr p, t0 @ t1 @ t))))"

section \<open>\<open>_.once\<close>\<close>

text \<open>
  lodash \<open>_.once(func)\<close> is \<open>_.before(2, func)\<close>: the returned function keeps a counter
  \<open>n\<close>, initially 2, and a variable \<open>result\<close>, initially \<open>undefined\<close>. A call
  decrements \<open>n\<close>; while \<open>n\<close> is still positive it calls \<open>func\<close> and stores what \<open>func\<close>
  returns in \<open>result\<close>; then it returns \<open>result\<close>. When \<open>func\<close> throws, the exception
  leaves the call before \<open>result\<close> is assigned.

  The state of the process: that counter (\<open>once_n\<close>) and variable (\<open>once_result\<close>), and
  the trace so far.
\<close>

record 'x process =
  once_n :: int
  once_result :: "'x retval"
  trace :: "event list"

definition start :: "'x process" where
  "start = \<lparr>once_n = 2, once_result = Undefined, trace = []\<rparr>"

text \<open>Line 75: the exported function, \<open>_.once\<close> of the function above.\<close>

definition bootstrap ::
  "'x collab \<Rightarrow> nat list \<Rightarrow> obj \<Rightarrow> 'x process \<Rightarrow> (error + 'x retval) \<times> 'x process" where
  "bootstrap c sch options s =
     (if once_n s - 1 > 0 then
        (case bootstrap_body c sch options of
           (Inl e, t) \<Rightarrow> (Inl e, s\<lparr>once_n := once_n s - 1, trace := trace s @ t\<rparr>)
         | (Inr p, t) \<Rightarrow>
             (Inr (Promise p),
              s\<lparr>once_n := once_n s - 1, once_result := Promise p, trace := trace s @ t\<rparr>))
      else (Inr (once_result s), s\<lparr>once_n := once_n s - 1\<rparr>))"

section \<open>Notions used by the properties\<close>

text \<open>
  The value that merging \<open>vb\<close> onto an earlier value \<open>va\<close> (absent: \<open>None\<close>) leaves at a
  key, by the rules of \<open>merge_spec\<close>.
\<close>

definition merge_value :: "jval option \<Rightarrow> jval \<Rightarrow> jval" where
  "merge_value va vb =
     (case vb of
        JObj mb \<Rightarrow> (case va of Some (JObj ma) \<Rightarrow> JObj (merge_spec ma mb) | _ \<Rightarrow> vb)
      | _ \<Rightarrow> vb)"

text \<open>
  Laying a later source over an earlier one at one key: an absent later value leaves the
  earlier one, a present one is merged onto it.
\<close>

definition overlay :: "jval option \<Rightarrow> jval option \<Rightarrow> jval option" where
  "overlay earlier later =
     (case later of None \<Rightarrow> earlier | Some v \<Rightarrow> Some (merge_value earlier v))"


text \<open>
  \<open>handlers_ran segs l l'\<close>: every continuation in \<open>segs\<close> has run, in order, starting on
  the Instance \<open>l\<close>; none has failed; and together they have left the Instance \<open>l'\<close>.
\<close>

fun handlers_ran :: "'x seg list \<Rightarrow> 'x lando \<Rightarrow> 'x lando \<Rightarrow> bool" where
  "handlers_ran [] l l' = (l' = l)"
| "handlers_ran (g # gs) l l' =
     (case g l of Inl e \<Rightarrow> False | Inr l1 \<Rightarrow> handlers_ran gs l1 l')"

text \<open>The kinds of events: steps of plugin loading, and steps of an emission.\<close>

fun plugin_event :: "event \<Rightarrow> bool" where
  "plugin_event (LoadCall p dirs) = True"
| "plugin_event (LoadDone p) = True"
| "plugin_event e = False"

fun emit_event :: "event \<Rightarrow> bool" where
  "emit_event (Emit name pl) = True"
| "emit_event (EmitDone name) = True"
| "emit_event e = False"

fun setup_event :: "event \<Rightarrow> bool" where
  "setup_event (Emit name pl) = False"
| "setup_event (EmitDone name) = False"
| "setup_event (LoadCall p dirs) = False"
| "setup_event (LoadDone p) = False"
| "setup_event e = True"

text \<open>The \<open>id\<close> that a run attaches to its config, or the failure that prevents it.\<close>

definition computed_id :: "'x collab \<Rightarrow> obj \<Rightarrow> error + jval" where
  "computed_id c options =
     (case fst (identified_config c options) of
        Inl e \<Rightarrow> Inl e
      | Inr cfg \<Rightarrow> Inr (get_prop cfg ''id''))"

text \<open>The plugins for which the loader was called, in the order of the calls.\<close>

fun loaded :: "event list \<Rightarrow> jval list" where
  "loaded [] = []"
| "loaded (LoadCall p dirs # t) = p # loaded t"
| "loaded (e # t) = loaded t"

text \<open>
  A trace of plugin loading is sequential when each load is completed before the next one
  is called; the last load may be left unfinished, when it failed.
\<close>

fun sequential :: "event list \<Rightarrow> bool" where
  "sequential [] = True"
| "sequential [LoadCall p dirs] = True"
| "sequential (LoadCall p dirs # LoadDone q # t) = (p = q \<and> sequential t)"
| "sequential t = False"

text \<open>The plugins whose load was completed, in the order of completion.\<close>

fun completed :: "event list \<Rightarrow> jval list" where
  "completed [] = []"
| "completed (LoadDone p # t) = p # completed t"
| "completed (e # t) = completed t"

text \<open>
  The lifecycle as a monitor that reads a trace. Its state is the phase reached and the
  plugins whose load has been called and is not yet completed. \<open>pre-bootstrap\<close> may be
  emitted only first, and with a config as payload; a plugin load may be called or
  completed only once \<open>pre-bootstrap\<close> is done, and completed only if it was called;
  \<open>post-bootstrap\<close> may be emitted only then, with the Instance as payload and with no
  load outstanding; after that nothing of plugin loading may happen. The monitor
  rejects (\<open>None\<close>) a trace that breaks one of these rules. Events of the synchronous
  part, and log lines, do not move it.
\<close>

datatype phase = Created | PreEmitted | PreDone | PostEmitted | Ready

fun is_config_ref :: "payload \<Rightarrow> bool" where
  "is_config_ref (ConfigRef cfg) = True"
| "is_config_ref InstanceRef = False"

fun lifecycle_step :: "phase \<times> jval list \<Rightarrow> event \<Rightarrow> (phase \<times> jval list) option" where
  "lifecycle_step (ph, out) (Emit name pl) =
     (if ph = Created \<and> name = ''pre-bootstrap'' \<and> is_config_ref pl then Some (PreEmitted, out)
      else if ph = PreDone \<and> name = ''post-bootstrap'' \<and> pl = InstanceRef \<and> out = []
      then Some (PostEmitted, out)
      else None)"
| "lifecycle_step (ph, out) (EmitDone name) =
     (if ph = PreEmitted \<and> name = ''pre-bootstrap'' then Some (PreDone, out)
      else if ph = PostEmitted \<and> name = ''post-bootstrap'' then Some (Ready, out)
      else None)"
| "lifecycle_step (ph, out) (LoadCall p dirs) =
     (if ph = PreDone then Some (ph, p # out) else None)"
| "lifecycle_step (ph, out) (LoadDone p) =
     (if ph = PreDone \<and> p \<in> set out then Some (ph, remove1 p out) else None)"
| "lifecycle_step (ph, out) e = Some (ph, out)"

fun lifecycle :: "phase \<times> jval list \<Rightarrow> event list \<Rightarrow> (phase \<times> jval list) option" where
  "lifecycle s [] = Some s"
| "lifecycle s (e # t) =
     (case lifecycle_step s e of None \<Rightarrow> None | Some s' \<Rightarrow> lifecycle s' t)"

section \<open>Example collaborators\<close>

text \<open>
  A small concrete world on which the theorems below are exercised. The Instance's
  \<open>ext\<close> is the list of plugin names registered so far.
\<close>

definition demo_fs :: "string \<Rightarrow> conf_file" where
  "demo_fs path =
     (if path = ''/etc/lando.yml'' then
        Parsed [(''a'', JNum 3), (''c'', JNum 3), (''x'', JObj [(''p'', JNum 3)])]
      else if path = ''/etc/broken.yml'' then Unparsable
      else Missing)"

definition demo_envs :: obj where
  "demo_envs = [(''a'', JNum 4), (''x'', JObj [(''q'', JNum 4)])]"

definition demo :: "string list collab" where
  "demo =
     \<lparr>merge = merge_spec,
      defaults = [(''a'', JNum 1), (''b'', JNum 1), (''d'', JNum 1),
                  (''x'', JObj [(''p'', JNum 1)])],
      loadFiles = loadFiles_spec demo_fs,
      loadEnvs = (\<lambda>prefix. Inr demo_envs),
      hasher = (\<lambda>seed. case seed of JStr s \<Rightarrow> Inr (''id:'' @ s) | _ \<Rightarrow> Inl IdentityError),
      factory = (\<lambda>cfg. Inr \<lparr>config = cfg, ext = []\<rparr>),
      emit = (\<lambda>name pl l. Return l []),
      load = (\<lambda>p dirs l. case p of JStr s \<Rightarrow> Return (l\<lparr>ext := ext l @ [s]\<rparr>) []
                             | _ \<Rightarrow> Throw (PluginNotFoundError [])),
      iterate = (\<lambda>v. None)\<rparr>"

text \<open>Options that name a config file and an environment prefix.\<close>

definition demo_options :: obj where
  "demo_options =
     [(''a'', JNum 2), (''b'', JNum 2), (''x'', JObj [(''p'', JNum 2)]),
      (''userConfRoot'', JStr ''/home/u''),
      (''configSources'', JArr [JStr ''/etc/lando.yml'']),
      (''envPrefix'', JStr ''LANDO_'')]"

text \<open>Options that list two plugins.\<close>

definition demo_plugins_options :: obj where
  "demo_plugins_options =
     [(''userConfRoot'', JStr ''/home/u''), (''plugins'', JArr [JStr ''p1'', JStr ''p2''])]"

text \<open>A world whose second \<open>pre-bootstrap\<close> handler fails, in a later turn.\<close>

definition failing_handler :: "string list seg" where
  "failing_handler l = Inl (EventHandlerError ''pre-bootstrap'' ''H2'')"

definition demo_failing :: "string list collab" where
  "demo_failing =
     demo\<lparr>emit := (\<lambda>name pl l.
       if name = ''pre-bootstrap'' then Return l [failing_handler] else Return l [])\<rparr>"


text \<open>Other options with the same \<open>userConfRoot\<close> as \<open>demo_options\<close>.\<close>

definition demo_other_options :: obj where
  "demo_other_options =
     [(''userConfRoot'', JStr ''/home/u''), (''mode'', JStr ''cli''), (''b'', JNum 7)]"

text \<open>Options with an empty list of config files, and a world where no file parses.\<close>

definition demo_plain_options :: obj where
  "demo_plain_options = [(''userConfRoot'', JStr ''/home/u''), (''configSources'', JArr [])]"

definition broken_fs :: "string \<Rightarrow> conf_file" where
  "broken_fs path = Unparsable"

text \<open>A world whose \<open>pre-bootstrap\<close> handler replaces the plugin list, in a later turn.\<close>

definition add_plugin_handler :: "string list seg" where
  "add_plugin_handler l =
     Inr (l\<lparr>config := set_prop ''plugins'' (JArr [JStr ''late'']) (config l)\<rparr>)"

definition demo_mutating :: "string list collab" where
  "demo_mutating =
     demo\<lparr>emit := (\<lambda>name pl l.
       if name = ''pre-bootstrap'' then Return l [add_plugin_handler] else Return l [])\<rparr>"

text \<open>
  A world whose plugin loader works asynchronously: the call starts the registration and
  returns a pending promise; the registration ends in a later turn.
\<close>

definition finish_registration :: "string \<Rightarrow> string list seg" where
  "finish_registration s l = Inr (l\<lparr>ext := ext l @ [s @ '':end'']\<rparr>)"

definition demo_async :: "string list collab" where
  "demo_async =
     demo\<lparr>load := (\<lambda>p dirs l.
       case p of
         JStr s \<Rightarrow> Return (l\<lparr>ext := ext l @ [s @ '':begin'']\<rparr>) [finish_registration s]
       | _ \<Rightarrow> Throw (PluginNotFoundError []))\<rparr>"

text \<open>An Instance to load plugins into.\<close>

definition demo_instance :: "string list lando" where
  "demo_instance =
     \<lparr>config = [(''plugins'', JArr [JStr ''p1'', JStr ''p2'']),
                (''pluginDirs'', JArr [JStr ''/plugins''])],
      ext = []\<rparr>"

text \<open>
  How a run of \<open>demo_async\<close>, or of \<open>demo_full\<close> below, with
  \<open>demo_plugins_options\<close> begins.
\<close>

definition demo_plugins_config :: obj where
  "demo_plugins_config =
     [(''a'', JNum 1), (''b'', JNum 1), (''d'', JNum 1), (''x'', JObj [(''p'', JNum 1)]),
      (''userConfRoot'', JStr ''/home/u''), (''plugins'', JArr [JStr ''p1'', JStr ''p2'']),
      (''id'', JStr ''id:/home/u'')]"

definition demo_setup_trace :: "event list" where
  "demo_setup_trace =
     [Defaults, Merge, Hash (JStr ''/home/u''), Build demo_plugins_config,
      Log ''info'' ''Bootstraping...'', Log ''silly'' ''It's not particularly silly, is it?'',
      Emit ''pre-bootstrap'' (ConfigRef demo_plugins_config), EmitDone ''pre-bootstrap'',
      Log ''debug'' ''Config set: %j'']"

text \<open>
  A world with a handler on each event and an asynchronous plugin loader. The
  \<open>pre-bootstrap\<close> handler sets \<open>pluginDirs\<close> in a later turn; the \<open>post-bootstrap\<close>
  handler notes \<open>post\<close> in the registration log in a later turn.
\<close>

definition set_dirs_handler :: "string list seg" where
  "set_dirs_handler l =
     Inr (l\<lparr>config := set_prop ''pluginDirs'' (JArr [JStr ''/late'']) (config l)\<rparr>)"

definition mark_post_handler :: "string list seg" where
  "mark_post_handler l = Inr (l\<lparr>ext := ext l @ [''post'']\<rparr>)"

definition demo_full :: "string list collab" where
  "demo_full =
     demo_async\<lparr>emit := (\<lambda>name pl l.
       if name = ''pre-bootstrap'' then Return l [set_dirs_handler]
       else Return l [mark_post_handler])\<rparr>"

section \<open>Properties\<close>

lemma drain_Nil [simp]: "drain sch [] l = (Inr l, [])"
  by (simp add: drain.simps)

lemma drain_Cons:
  "drain sch (q # qs) l =
     (case (case snd ((q # qs) ! pick sch (length (q # qs))) of
              [] \<Rightarrow> Inr l
            | g # rest \<Rightarrow> g l) of
        Inl e \<Rightarrow> (Inl e, [])
      | Inr l1 \<Rightarrow>
          (if tl (snd ((q # qs) ! pick sch (length (q # qs)))) = [] then
             (case drain (tl sch) (drop_nth (pick sch (length (q # qs))) (q # qs)) l1 of
                (r, t) \<Rightarrow> (r, LoadDone (fst ((q # qs) ! pick sch (length (q # qs)))) # t))
           else
             drain (tl sch)
               ((q # qs)[pick sch (length (q # qs)) :=
                       (fst ((q # qs) ! pick sch (length (q # qs))),
                        tl (snd ((q # qs) ! pick sch (length (q # qs)))))])
               l1))"
  by (subst drain.simps) simp

lemmas run_defs =
  bootstrap_def start_def bootstrap_body_def then_chain_def post_bootstrap_def
  bootstrap_sync_def identified_config_def
  resolved_config_def call_emit_def map_plugins_def plugins_or_empty_def as_array_def
  get_prop_def has_def demo_def demo_fs_def demo_envs_def demo_options_def
  drain_Cons pick_def drop_nth_def

subsection \<open>What each stage adds to the trace\<close>

lemma sweep_events: "e \<in> set (snd (sweep c ps l)) \<Longrightarrow> plugin_event e"
proof (induction ps arbitrary: l e)
  case Nil
  then show ?case by simp
next
  case (Cons p ps)
  show ?case
  proof (cases "load c p (get_prop (config l) ''pluginDirs'') l")
    case (Throw x)
    with Cons.prems show ?thesis by auto
  next
    case (RejectNow x)
    with Cons.prems show ?thesis by auto
  next
    case (Return l1 segs)
    with Cons.prems Cons.IH [of _ l1] show ?thesis
      by (auto split: prod.splits sum.splits if_splits)
  qed
qed

lemma drain_events: "e \<in> set (snd (drain sch pend l)) \<Longrightarrow> plugin_event e"
proof (induction sch pend l arbitrary: e rule: drain.induct)
  case (1 sch pend l)
  from "1.prems" show ?case
    apply (subst (asm) drain.simps)
    apply (auto split: if_splits sum.splits prod.splits list.splits dest: "1.IH")
    done
qed

lemma map_plugins_events: "e \<in> set (snd (map_plugins c sch ps l)) \<Longrightarrow> plugin_event e"
proof -
  assume e: "e \<in> set (snd (map_plugins c sch ps l))"
  obtain r t where sw: "sweep c ps l = (r, t)" by (cases "sweep c ps l")
  have t: "x \<in> set t \<Longrightarrow> plugin_event x" for x
    using sweep_events [of x c ps l] sw by simp
  show ?thesis
  proof (cases r)
    case (Inl err)
    with e sw t show ?thesis by (simp add: map_plugins_def)
  next
    case (Inr lp)
    obtain l1 pend where lp: "lp = (l1, pend)" by (cases lp)
    obtain r' t' where dr: "drain sch pend l1 = (r', t')" by (cases "drain sch pend l1")
    have "x \<in> set t' \<Longrightarrow> plugin_event x" for x
      using drain_events [of x sch pend l1] dr by simp
    with e sw t Inr lp dr show ?thesis by (auto simp: map_plugins_def)
  qed
qed

lemma call_emit_events:
  "e \<in> set (snd (call_emit c name pl l)) \<Longrightarrow> e = Emit name pl \<or> e = EmitDone name"
  by (auto simp: call_emit_def split: call.splits sum.splits)

lemma resolved_config_events:
  "resolved_config c options = (r, t) \<Longrightarrow> e \<in> set t \<Longrightarrow> setup_event e"
  by (auto simp: resolved_config_def Let_def split: if_splits sum.splits)

lemma identified_config_events:
  "identified_config c options = (r, t) \<Longrightarrow> e \<in> set t \<Longrightarrow> setup_event e"
  by (auto simp: identified_config_def split: prod.splits sum.splits
      dest: resolved_config_events)

lemma bootstrap_sync_events:
  "bootstrap_sync c options = (r, t) \<Longrightarrow> e \<in> set t \<Longrightarrow> setup_event e"
  by (auto simp: bootstrap_sync_def split: prod.splits sum.splits
      dest: identified_config_events)

lemma call_emit_events':
  "call_emit c name pl l = (r, t) \<Longrightarrow> e \<in> set t \<Longrightarrow> e = Emit name pl \<or> e = EmitDone name"
  using call_emit_events [of e c name pl l] by simp

lemma map_plugins_events':
  "map_plugins c sch ps l = (r, t) \<Longrightarrow> e \<in> set t \<Longrightarrow> plugin_event e"
  using map_plugins_events [of e c sch ps l] by simp

lemma call_emit_cases:
  obtains (Threw) e where "call_emit c name pl l = (Inl e, [Emit name pl])"
  | (Rejected) e where "call_emit c name pl l = (Inr (Rejected e), [Emit name pl])"
  | (Fulfilled) l2 where "call_emit c name pl l = (Inr (Fulfilled l2), [Emit name pl, EmitDone name])"
proof (cases "emit c name pl l")
  case (Throw e)
  then show ?thesis using that(1) by (simp add: call_emit_def)
next
  case (RejectNow e)
  then show ?thesis using that(2) by (simp add: call_emit_def)
next
  case (Return l1 segs)
  then show ?thesis using that(2,3)
    by (cases "await segs l1") (simp_all add: call_emit_def)
qed

lemma post_bootstrap_cases:
  obtains (Rejected) e where
    "post_bootstrap c l = (Rejected e, [Emit ''post-bootstrap'' InstanceRef])"
  | (Fulfilled) l3 where
    "call_emit c ''post-bootstrap'' InstanceRef l =
       (Inr (Fulfilled l3), [Emit ''post-bootstrap'' InstanceRef, EmitDone ''post-bootstrap''])"
    "post_bootstrap c l =
       (Fulfilled l3,
        [Emit ''post-bootstrap'' InstanceRef, EmitDone ''post-bootstrap'',
         Log ''info'' ''Bootstrap completed.''])"
proof (cases rule: call_emit_cases [of c "''post-bootstrap''" InstanceRef l])
  case (Threw e)
  then show ?thesis using that(1) by (simp add: post_bootstrap_def)
next
  case (Rejected e)
  then show ?thesis using that(1) by (simp add: post_bootstrap_def)
next
  case (Fulfilled l2)
  then show ?thesis using that(2) by (simp add: post_bootstrap_def)
qed

lemma then_chain_cases:
  obtains (Not_iterable)
    "as_array c (plugins_or_empty (config l1)) = None"
    "then_chain c sch l1 = (Rejected TypeError, [Log ''debug'' ''Config set: %j''])"
  | (Load_failed) ps e t2 where
    "as_array c (plugins_or_empty (config l1)) = Some ps"
    "map_plugins c sch ps l1 = (Inl e, t2)"
    "then_chain c sch l1 = (Rejected e, Log ''debug'' ''Config set: %j'' # t2)"
  | (Loaded) ps l2 t2 p t3 where
    "as_array c (plugins_or_empty (config l1)) = Some ps"
    "map_plugins c sch ps l1 = (Inr l2, t2)"
    "post_bootstrap c l2 = (p, t3)"
    "then_chain c sch l1 = (p, Log ''debug'' ''Config set: %j'' # t2 @ t3)"
proof (cases "as_array c (plugins_or_empty (config l1))")
  case None
  then show ?thesis using that(1) by (simp add: then_chain_def)
next
  case (Some ps)
  obtain r t2 where m: "map_plugins c sch ps l1 = (r, t2)"
    by (cases "map_plugins c sch ps l1")
  show ?thesis
  proof (cases r)
    case (Inl e)
    with Some m show ?thesis using that(2) by (simp add: then_chain_def)
  next
    case (Inr l2)
    obtain p t3 where "post_bootstrap c l2 = (p, t3)"
      by (cases "post_bootstrap c l2")
    with Some m Inr show ?thesis using that(3) by (simp add: then_chain_def)
  qed
qed

lemma bootstrap_body_cases:
  obtains (Sync_failed) e t0 where
    "bootstrap_sync c options = (Inl e, t0)"
    "bootstrap_body c sch options = (Inl e, t0)"
  | (Pre_failed) l0 t0 f t1 where
    "bootstrap_sync c options = (Inr l0, t0)"
    "call_emit c ''pre-bootstrap'' (ConfigRef (config l0)) l0 = (f, t1)"
    "\<forall>l1. f \<noteq> Inr (Fulfilled l1)"
    "bootstrap_body c sch options = (f, t0 @ t1)"
  | (Chain) l0 t0 l1 t1 p t2 where
    "bootstrap_sync c options = (Inr l0, t0)"
    "call_emit c ''pre-bootstrap'' (ConfigRef (config l0)) l0 = (Inr (Fulfilled l1), t1)"
    "then_chain c sch l1 = (p, t2)"
    "bootstrap_body c sch options = (Inr p, t0 @ t1 @ t2)"
proof -
  obtain r t0 where s: "bootstrap_sync c options = (r, t0)"
    by (cases "bootstrap_sync c options")
  show ?thesis
  proof (cases r)
    case (Inl e)
    with s show ?thesis using that(1) by (simp add: bootstrap_body_def)
  next
    case (Inr l0)
    show ?thesis
    proof (cases rule: call_emit_cases [of c "''pre-bootstrap''" "ConfigRef (config l0)" l0])
      case (Threw e)
      with s Inr show ?thesis using that(2) by (simp add: bootstrap_body_def)
    next
      case (Rejected e)
      with s Inr show ?thesis using that(2) by (simp add: bootstrap_body_def)
    next
      case (Fulfilled l1)
      obtain p t2 where "then_chain c sch l1 = (p, t2)"
        by (cases "then_chain c sch l1")
      with s Inr Fulfilled show ?thesis using that(3) by (simp add: bootstrap_body_def)
    qed
  qed
qed

lemma post_bootstrap_events:
  "post_bootstrap c l = (p, t) \<Longrightarrow> e \<in> set t \<Longrightarrow>
   e = Emit ''post-bootstrap'' InstanceRef \<or> e = EmitDone ''post-bootstrap'' \<or>
   e = Log ''info'' ''Bootstrap completed.''"
  by (cases rule: post_bootstrap_cases [of c l]) auto

lemma then_chain_events:
  "then_chain c sch l = (p, t) \<Longrightarrow> e \<in> set t \<Longrightarrow>
   plugin_event e \<or> e = Log ''debug'' ''Config set: %j'' \<or>
   e = Emit ''post-bootstrap'' InstanceRef \<or> e = EmitDone ''post-bootstrap'' \<or>
   e = Log ''info'' ''Bootstrap completed.''"
  by (cases rule: then_chain_cases [of c l sch])
    (auto dest: map_plugins_events' post_bootstrap_events)

subsection \<open>Run once\<close>

text \<open>
  C1, as the code has it. A second call of the exported function, with any options and
  whatever the collaborators would do now, runs no step of the bootstrap sequence: the
  trace is unchanged. When the first call returned a promise, fulfilled with the Instance
  or rejected with a failure, the second call returns that same promise.
\<close>

theorem bootstrap_second_call:
  assumes "bootstrap c1 sch1 o1 start = (r1, s1)"
    and "bootstrap c2 sch2 o2 s1 = (r2, s2)"
  shows "trace s2 = trace s1 \<and> (\<forall>v. r1 = Inr v \<longrightarrow> r2 = Inr v)"
  using assms
  by (auto simp: bootstrap_def start_def split: prod.splits sum.splits)

theorem bootstrap_second_call_witness:
  "fst (bootstrap demo [] [(''userConfRoot'', JStr ''/home/u'')] start) =
     Inr (Promise (Fulfilled
       \<lparr>config = [(''a'', JNum 1), (''b'', JNum 1), (''d'', JNum 1),
                  (''x'', JObj [(''p'', JNum 1)]),
                  (''userConfRoot'', JStr ''/home/u''), (''id'', JStr ''id:/home/u'')],
        ext = []\<rparr>)) \<and>
   fst (bootstrap demo [] [(''userConfRoot'', JStr ''/srv'')]
          (snd (bootstrap demo [] [(''userConfRoot'', JStr ''/home/u'')] start))) =
     fst (bootstrap demo [] [(''userConfRoot'', JStr ''/home/u'')] start) \<and>
   trace (snd (bootstrap demo [] [(''userConfRoot'', JStr ''/srv'')]
          (snd (bootstrap demo [] [(''userConfRoot'', JStr ''/home/u'')] start)))) =
     trace (snd (bootstrap demo [] [(''userConfRoot'', JStr ''/home/u'')] start))"
proof -
  let ?first = "bootstrap demo [] [(''userConfRoot'', JStr ''/home/u'')] start"
  let ?second = "bootstrap demo [] [(''userConfRoot'', JStr ''/srv'')] (snd ?first)"
  have r1: "fst ?first =
     Inr (Promise (Fulfilled
       \<lparr>config = [(''a'', JNum 1), (''b'', JNum 1), (''d'', JNum 1),
                  (''x'', JObj [(''p'', JNum 1)]),
                  (''userConfRoot'', JStr ''/home/u''), (''id'', JStr ''id:/home/u'')],
        ext = []\<rparr>))"
    by (simp add: run_defs)
  have a: "?first = (fst ?first, snd ?first)" and b: "?second = (fst ?second, snd ?second)"
    by simp_all
  from bootstrap_second_call [OF a b] r1 show ?thesis
    by simp
qed

text \<open>
  C1 as stated fails when the first call fails by an exception: here the only configured
  file does not exist, the first call throws the \<open>ConfigLoadError\<close>, and the second call
  returns \<open>undefined\<close>, which is neither that failure nor an Instance.
\<close>

theorem bootstrap_second_call_counterexample:
  "fst (bootstrap demo [] [(''configSources'', JArr [JStr ''/nonexistent''])] start) =
     Inl (ConfigLoadError ''/nonexistent'') \<and>
   fst (bootstrap demo [] [(''configSources'', JArr [JStr ''/nonexistent''])]
          (snd (bootstrap demo [] [(''configSources'', JArr [JStr ''/nonexistent''])] start))) =
     Inr Undefined"
  by (simp add: run_defs)

subsection \<open>Merge precedence\<close>

lemma map_of_set_prop: "map_of (set_prop k v a) = (map_of a)(k \<mapsto> v)"
  by (induction a) (auto simp: fun_upd_twist)

lemma map_of_merge_spec:
  "distinct (map fst b) \<Longrightarrow>
   map_of (merge_spec a b) k =
     (case map_of b k of None \<Rightarrow> map_of a k | Some vb \<Rightarrow> Some (merge_value (map_of a k) vb))"
proof (induction b arbitrary: a k)
  case Nil
  then show ?case by simp
next
  case (Cons x b)
  obtain k0 v0 where x: "x = (k0, v0)" by (cases x)
  from Cons.prems x have fresh: "map_of b k0 = None" and d: "distinct (map fst b)"
    by (auto simp: map_of_eq_None_iff)
  show ?case
  proof (cases "k = k0")
    case True
    with fresh d x show ?thesis
      by (simp add: Cons.IH map_of_set_prop merge_value_def)
  next
    case False
    with d x show ?thesis
      by (simp add: Cons.IH map_of_set_prop split: option.splits)
  qed
qed

lemma merge_spec_keep: "map_of b k = None \<Longrightarrow> map_of (merge_spec a b) k = map_of a k"
proof (induction b arbitrary: a)
  case Nil
  then show ?case by simp
next
  case (Cons x b)
  then show ?case
    by (cases x) (auto simp: map_of_set_prop split: if_splits)
qed

lemma merge_spec_win:
  "distinct (map fst b) \<Longrightarrow> map_of b k = Some v \<Longrightarrow> \<not> is_mapping v \<Longrightarrow>
   map_of (merge_spec a b) k = Some v"
  by (cases v) (simp_all add: map_of_merge_spec merge_value_def)

lemma map_of_merge_overlay:
  "distinct (map fst b) \<Longrightarrow> map_of (merge_spec a b) k = overlay (map_of a k) (map_of b k)"
  by (simp add: map_of_merge_spec overlay_def)

text \<open>
  C2, as the deep merge has it. Let all four sources take part: \<open>configSources\<close> is not
  empty and \<open>loadFiles\<close> returns \<open>files\<close>, the config has an \<open>envPrefix\<close> and
  \<open>loadEnvs\<close> returns \<open>envs\<close>; the objects are well formed (no duplicate key). Then
  at every key the resolved config is defaults, overlaid by options, overlaid by files,
  overlaid by env. So a key that env has resolves to the env value, unless the env value
  and the value merged so far from defaults, options and files are both mappings: then it
  resolves to the recursive merge of the env mapping onto that value, in which the env
  value again wins at every nested key where it is not a mapping. The same holds one
  level down for files and for options, and a key that options, files and env all lack
  keeps what defaults has for it.
\<close>

theorem merge_precedence:
  assumes "merge c = merge_spec"
    and "\<not> isEmpty (get_prop (merge_spec (defaults c) options) ''configSources'')"
    and "loadFiles c (get_prop (merge_spec (defaults c) options) ''configSources'') = Inr files"
    and "has (merge_spec (merge_spec (defaults c) options) files) ''envPrefix''"
    and "loadEnvs c (get_prop (merge_spec (merge_spec (defaults c) options) files) ''envPrefix'')
           = Inr envs"
    and "distinct (map fst options)" and "distinct (map fst files)" and "distinct (map fst envs)"
  shows "\<exists>cfg. fst (resolved_config c options) = Inr cfg \<and>
    (\<forall>k. map_of cfg k =
       overlay (overlay (overlay (map_of (defaults c) k) (map_of options k)) (map_of files k))
         (map_of envs k)) \<and>
    (\<forall>k v. map_of envs k = Some v \<and> \<not> is_mapping v \<longrightarrow> map_of cfg k = Some v) \<and>
    (\<forall>k v. map_of envs k = Some v \<and>
        (\<forall>ma. overlay (overlay (map_of (defaults c) k) (map_of options k)) (map_of files k)
           \<noteq> Some (JObj ma)) \<longrightarrow>
        map_of cfg k = Some v) \<and>
    (\<forall>k ma mb. map_of envs k = Some (JObj mb) \<and>
        overlay (overlay (map_of (defaults c) k) (map_of options k)) (map_of files k)
          = Some (JObj ma) \<longrightarrow>
        map_of cfg k = Some (JObj (merge_spec ma mb)) \<and>
        (distinct (map fst mb) \<longrightarrow>
           (\<forall>k' v'. map_of mb k' = Some v' \<and> \<not> is_mapping v' \<longrightarrow>
              map_of (merge_spec ma mb) k' = Some v'))) \<and>
    (\<forall>k v. map_of envs k = None \<and> map_of files k = Some v \<and> \<not> is_mapping v
        \<longrightarrow> map_of cfg k = Some v) \<and>
    (\<forall>k v. map_of envs k = None \<and> map_of files k = None \<and> map_of options k = Some v \<and>
        \<not> is_mapping v \<longrightarrow> map_of cfg k = Some v) \<and>
    (\<forall>k. map_of envs k = None \<and> map_of files k = None \<and> map_of options k = None
        \<longrightarrow> map_of cfg k = map_of (defaults c) k)"
proof -
  let ?cfg = "merge_spec (merge_spec (merge_spec (defaults c) options) files) envs"
  let ?pre = "\<lambda>k. overlay (overlay (map_of (defaults c) k) (map_of options k)) (map_of files k)"
  have res: "fst (resolved_config c options) = Inr ?cfg"
    using assms(1-5) by (simp add: resolved_config_def Let_def)
  have pre: "map_of (merge_spec (merge_spec (defaults c) options) files) k = ?pre k" for k
    using assms(6,7) by (simp add: map_of_merge_overlay)
  have full: "map_of ?cfg k = overlay (?pre k) (map_of envs k)" for k
    using assms(8) pre by (simp add: map_of_merge_overlay)
  have env_plain: "map_of ?cfg k = Some v" if "map_of envs k = Some v" "\<not> is_mapping v" for k v
    using that assms(8) by (simp add: merge_spec_win)
  have env_over: "map_of ?cfg k = Some v"
    if "map_of envs k = Some v" "\<forall>ma. ?pre k \<noteq> Some (JObj ma)" for k v
    using that full [of k]
    by (auto simp: overlay_def merge_value_def split: jval.splits option.splits)
  have both: "map_of ?cfg k = Some (JObj (merge_spec ma mb))"
    if "map_of envs k = Some (JObj mb)" "?pre k = Some (JObj ma)" for k ma mb
    using that full [of k] by (simp add: overlay_def merge_value_def)
  have nested: "map_of (merge_spec ma mb) k' = Some v'"
    if "distinct (map fst mb)" "map_of mb k' = Some v'" "\<not> is_mapping v'" for ma mb k' v'
    using that by (simp add: merge_spec_win)
  have files_plain: "map_of ?cfg k = Some v"
    if "map_of envs k = None" "map_of files k = Some v" "\<not> is_mapping v" for k v
    using that assms(7) by (simp add: merge_spec_win merge_spec_keep)
  have options_plain: "map_of ?cfg k = Some v"
    if "map_of envs k = None" "map_of files k = None" "map_of options k = Some v"
      "\<not> is_mapping v" for k v
    using that assms(6) by (simp add: merge_spec_win merge_spec_keep)
  have keep: "map_of ?cfg k = map_of (defaults c) k"
    if "map_of envs k = None" "map_of files k = None" "map_of options k = None" for k
    using that by (simp add: merge_spec_keep)
  show ?thesis
    apply (rule exI [of _ ?cfg])
    apply (intro conjI allI impI)
    subgoal by (rule res)
    subgoal by (rule full)
    subgoal by (rule env_plain) auto
    subgoal by (rule env_over) auto
    subgoal by (rule both) auto
    subgoal by (rule nested) auto
    subgoal by (rule files_plain) auto
    subgoal by (rule options_plain) auto
    subgoal by (rule keep) auto
    done
qed

theorem merge_precedence_witness:
  "\<exists>cfg. fst (resolved_config demo demo_options) = Inr cfg \<and>
     map_of cfg ''a'' = Some (JNum 4) \<and> map_of cfg ''b'' = Some (JNum 2) \<and>
     map_of cfg ''c'' = Some (JNum 3) \<and> map_of cfg ''d'' = Some (JNum 1) \<and>
     map_of cfg ''x'' = Some (JObj [(''p'', JNum 3), (''q'', JNum 4)])"
proof -
  let ?files = "[(''a'', JNum 3), (''c'', JNum 3), (''x'', JObj [(''p'', JNum 3)])]"
  have h1: "merge demo = merge_spec" by (simp add: demo_def)
  have h2: "\<not> isEmpty (get_prop (merge_spec (defaults demo) demo_options) ''configSources'')"
    by (simp add: run_defs)
  have h3: "loadFiles demo (get_prop (merge_spec (defaults demo) demo_options) ''configSources'')
      = Inr ?files"
    by (simp add: run_defs)
  have h4: "has (merge_spec (merge_spec (defaults demo) demo_options) ?files) ''envPrefix''"
    by (simp add: run_defs)
  have h5: "loadEnvs demo (get_prop (merge_spec (merge_spec (defaults demo) demo_options)
      ?files) ''envPrefix'') = Inr demo_envs"
    by (simp add: demo_def)
  have h6: "distinct (map fst demo_options)" by (simp add: demo_options_def)
  have h7: "distinct (map fst ?files)" by simp
  have h8: "distinct (map fst demo_envs)" by (simp add: demo_envs_def)
  from merge_precedence [OF h1 h2 h3 h4 h5 h6 h7 h8]
  obtain cfg where cfg: "fst (resolved_config demo demo_options) = Inr cfg"
    and e: "\<forall>k v. map_of demo_envs k = Some v \<and> \<not> is_mapping v \<longrightarrow> map_of cfg k = Some v"
    and m: "\<forall>k ma mb. map_of demo_envs k = Some (JObj mb) \<and>
          overlay (overlay (map_of (defaults demo) k) (map_of demo_options k)) (map_of ?files k)
            = Some (JObj ma) \<longrightarrow>
          map_of cfg k = Some (JObj (merge_spec ma mb)) \<and>
          (distinct (map fst mb) \<longrightarrow>
             (\<forall>k' v'. map_of mb k' = Some v' \<and> \<not> is_mapping v' \<longrightarrow>
                map_of (merge_spec ma mb) k' = Some v'))"
    and f: "\<forall>k v. map_of demo_envs k = None \<and> map_of ?files k = Some v \<and>
          \<not> is_mapping v \<longrightarrow> map_of cfg k = Some v"
    and o: "\<forall>k v. map_of demo_envs k = None \<and> map_of ?files k = None \<and>
          map_of demo_options k = Some v \<and> \<not> is_mapping v \<longrightarrow> map_of cfg k = Some v"
    and d: "\<forall>k. map_of demo_envs k = None \<and> map_of ?files k = None \<and>
          map_of demo_options k = None \<longrightarrow> map_of cfg k = map_of (defaults demo) k"
    by (elim exE conjE) (rule that; assumption)
  have "map_of cfg ''a'' = Some (JNum 4)"
    using e [rule_format, of "''a''" "JNum 4"] by (simp add: demo_envs_def)
  moreover have "map_of cfg ''b'' = Some (JNum 2)"
    using o [rule_format, of "''b''" "JNum 2"] by (simp add: demo_envs_def demo_options_def)
  moreover have "map_of cfg ''c'' = Some (JNum 3)"
    using f [rule_format, of "''c''" "JNum 3"] by (simp add: demo_envs_def)
  moreover have "map_of cfg ''d'' = Some (JNum 1)"
    using d [rule_format, of "''d''"] by (simp add: demo_envs_def demo_options_def demo_def)
  moreover have "map_of cfg ''x'' = Some (JObj [(''p'', JNum 3), (''q'', JNum 4)])"
    using m [rule_format, of "''x''" "[(''q'', JNum 4)]" "[(''p'', JNum 3)]"]
    by (simp add: demo_envs_def demo_options_def demo_def overlay_def merge_value_def)
  ultimately show ?thesis using cfg by blast
qed

text \<open>
  C2 as stated fails for a key whose values are mappings. The key \<open>x\<close> is present in
  all four sources, the env value is \<open>{q: 4}\<close>, and the resolved value is
  \<open>{p: 3, q: 4}\<close>: the env mapping merged onto the files mapping.
\<close>

theorem merge_precedence_counterexample:
  "get_prop (defaults demo) ''x'' = JObj [(''p'', JNum 1)] \<and>
   get_prop demo_options ''x'' = JObj [(''p'', JNum 2)] \<and>
   loadFiles demo (get_prop demo_options ''configSources'') =
     Inr [(''a'', JNum 3), (''c'', JNum 3), (''x'', JObj [(''p'', JNum 3)])] \<and>
   loadEnvs demo (get_prop demo_options ''envPrefix'') =
     Inr [(''a'', JNum 4), (''x'', JObj [(''q'', JNum 4)])] \<and>
   fst (resolved_config demo demo_options) =
     Inr [(''a'', JNum 4), (''b'', JNum 2), (''d'', JNum 1),
          (''x'', JObj [(''p'', JNum 3), (''q'', JNum 4)]),
          (''userConfRoot'', JStr ''/home/u''),
          (''configSources'', JArr [JStr ''/etc/lando.yml'']),
          (''envPrefix'', JStr ''LANDO_''), (''c'', JNum 3)]"
  by (simp add: run_defs)

subsection \<open>Failure of the \<open>pre-bootstrap\<close> emission\<close>

text \<open>
  C5. When the Instance has been built and the \<open>pre-bootstrap\<close> emission fails with
  \<open>e\<close> (the \<open>emit\<close> call throws, or its promise is rejected, at once or by a handler
  in a later turn), the result of bootstrap is that same failure, no plugin load is
  called and \<open>post-bootstrap\<close> is not emitted.
\<close>

theorem pre_bootstrap_failure_aborts:
  assumes "fst (bootstrap_sync c options) = Inr l0"
    and "fst (call_emit c ''pre-bootstrap'' (ConfigRef (config l0)) l0) = failure"
    and "failure = Inl e \<or> failure = Inr (Rejected e)"
  shows "fst (bootstrap_body c sch options) = failure \<and>
         (\<forall>p dirs. LoadCall p dirs \<notin> set (snd (bootstrap_body c sch options))) \<and>
         (\<forall>pl. Emit ''post-bootstrap'' pl \<notin> set (snd (bootstrap_body c sch options)))"
proof -
  obtain t0 where s: "bootstrap_sync c options = (Inr l0, t0)"
    using assms(1) by (cases "bootstrap_sync c options") simp
  obtain t1 where m: "call_emit c ''pre-bootstrap'' (ConfigRef (config l0)) l0 = (failure, t1)"
    using assms(2) by (cases "call_emit c ''pre-bootstrap'' (ConfigRef (config l0)) l0") simp
  have body: "bootstrap_body c sch options = (failure, t0 @ t1)"
    using s m assms(3) by (auto simp: bootstrap_body_def)
  show ?thesis
    by (auto simp: body dest: bootstrap_sync_events [OF s] call_emit_events' [OF m])
qed

theorem pre_bootstrap_failure_aborts_witness:
  "fst (bootstrap_body demo_failing [] demo_plugins_options) =
     Inr (Rejected (EventHandlerError ''pre-bootstrap'' ''H2'')) \<and>
   (\<forall>p dirs. LoadCall p dirs \<notin> set (snd (bootstrap_body demo_failing [] demo_plugins_options))) \<and>
   (\<forall>pl. Emit ''post-bootstrap'' pl \<notin> set (snd (bootstrap_body demo_failing [] demo_plugins_options)))"
proof -
  let ?l0 = "\<lparr>config = [(''a'', JNum 1), (''b'', JNum 1), (''d'', JNum 1),
      (''x'', JObj [(''p'', JNum 1)]), (''userConfRoot'', JStr ''/home/u''),
      (''plugins'', JArr [JStr ''p1'', JStr ''p2'']), (''id'', JStr ''id:/home/u'')],
    ext = []\<rparr> :: string list lando"
  have a: "fst (bootstrap_sync demo_failing demo_plugins_options) = Inr ?l0"
    by (simp add: run_defs demo_failing_def demo_plugins_options_def)
  have b: "fst (call_emit demo_failing ''pre-bootstrap'' (ConfigRef (config ?l0)) ?l0) =
      Inr (Rejected (EventHandlerError ''pre-bootstrap'' ''H2''))"
    by (simp add: run_defs demo_failing_def failing_handler_def)
  from pre_bootstrap_failure_aborts [OF a b] show ?thesis
    by simp
qed

subsection \<open>Failure of a config file\<close>






subsection \<open>The identifier\<close>

lemma get_prop_set_prop: "get_prop (set_prop k v cfg) k = v"
  by (simp add: get_prop_def map_of_set_prop)

lemma computed_id_eq:
  "fst (resolved_config c opts) = Inr cfg \<Longrightarrow>
   computed_id c opts = map_sum id JStr (hasher c (get_prop cfg ''userConfRoot''))"
  by (cases "resolved_config c opts")
    (auto simp: computed_id_def identified_config_def get_prop_set_prop split: sum.splits)

text \<open>
  The identifier is \<open>hasher(config.userConfRoot)\<close> and depends on nothing else of the
  run: two runs, with any options and any collaborators but the same \<open>hasher\<close>, whose
  resolved \<open>userConfRoot\<close> is the same compute the same \<open>id\<close>, or fail with the same
  error of the hasher. How seldom two different roots share an identifier is a statement
  of probability about the hash function, and has no counterpart here.
\<close>

lemma id_determined_by_root:
  assumes "fst (resolved_config c1 o1) = Inr cfg1"
    and "fst (resolved_config c2 o2) = Inr cfg2"
    and "hasher c1 = hasher c2"
  shows "(get_prop cfg1 ''userConfRoot'' = get_prop cfg2 ''userConfRoot'' \<longrightarrow>
            computed_id c1 o1 = computed_id c2 o2) \<and>
         (computed_id c1 o1 = computed_id c2 o2 \<longleftrightarrow>
            hasher c1 (get_prop cfg1 ''userConfRoot'') = hasher c1 (get_prop cfg2 ''userConfRoot''))"
  using computed_id_eq [OF assms(1)] computed_id_eq [OF assms(2)] assms(3)
  by (auto simp: map_sum_def split: sum.splits)

lemma id_determined_by_root_example:
  "computed_id demo demo_options = Inr (JStr ''id:/home/u'') \<and>
   computed_id demo demo_other_options = Inr (JStr ''id:/home/u'')"
proof -
  have a: "fst (resolved_config demo demo_options) =
     Inr [(''a'', JNum 4), (''b'', JNum 2), (''d'', JNum 1),
          (''x'', JObj [(''p'', JNum 3), (''q'', JNum 4)]),
          (''userConfRoot'', JStr ''/home/u''),
          (''configSources'', JArr [JStr ''/etc/lando.yml'']),
          (''envPrefix'', JStr ''LANDO_''), (''c'', JNum 3)]"
    by (simp add: run_defs)
  have b: "fst (resolved_config demo demo_other_options) =
     Inr [(''a'', JNum 1), (''b'', JNum 7), (''d'', JNum 1), (''x'', JObj [(''p'', JNum 1)]),
          (''userConfRoot'', JStr ''/home/u''), (''mode'', JStr ''cli'')]"
    by (simp add: run_defs demo_other_options_def)
  have c: "computed_id demo demo_options = Inr (JStr ''id:/home/u'')"
    by (simp add: computed_id_def run_defs)
  from id_determined_by_root [OF a b refl] c show ?thesis
    by (simp add: get_prop_def)
qed

subsection \<open>When the config files are read\<close>

lemma sweep_cong: "load c' = load c \<Longrightarrow> sweep c' ps l = sweep c ps l"
  by (induction ps arbitrary: l) (simp_all split: call.splits)

lemma body_ignores_loadFiles:
  assumes "isEmpty (get_prop (merge c (defaults c) options) ''configSources'')"
  shows "bootstrap_body (c\<lparr>loadFiles := lf\<rparr>) sch options = bootstrap_body c sch options"
proof -
  have "resolved_config (c\<lparr>loadFiles := lf\<rparr>) options = resolved_config c options"
    using assms by (simp add: resolved_config_def Let_def split: sum.splits)
  then have "bootstrap_sync (c\<lparr>loadFiles := lf\<rparr>) options = bootstrap_sync c options"
    by (simp add: bootstrap_sync_def identified_config_def split: prod.splits sum.splits)
  moreover have "map_plugins (c\<lparr>loadFiles := lf\<rparr>) sch ps l = map_plugins c sch ps l" for ps l
    using sweep_cong [of "c\<lparr>loadFiles := lf\<rparr>" c ps l] by (simp add: map_plugins_def)
  moreover have emit: "call_emit (c\<lparr>loadFiles := lf\<rparr>) name pl l = call_emit c name pl l"
    for name pl l
    by (simp add: call_emit_def)
  moreover have "as_array (c\<lparr>loadFiles := lf\<rparr>) v = as_array c v" for v
    by (simp add: as_array_def split: jval.splits)
  ultimately have "then_chain (c\<lparr>loadFiles := lf\<rparr>) sch l = then_chain c sch l" for l
    by (simp add: then_chain_def post_bootstrap_def split: option.splits prod.splits sum.splits)
  with \<open>bootstrap_sync (c\<lparr>loadFiles := lf\<rparr>) options = bootstrap_sync c options\<close> emit
  show ?thesis
    by (simp add: bootstrap_body_def split: prod.splits sum.splits promise.splits)
qed

lemma sync_LoadFiles_iff:
  "LoadFiles v \<in> set (snd (bootstrap_sync c options)) \<longleftrightarrow>
   LoadFiles v \<in> set (snd (resolved_config c options))"
  by (auto simp: bootstrap_sync_def identified_config_def split: prod.splits sum.splits)

lemma body_LoadFiles_iff:
  "LoadFiles v \<in> set (snd (bootstrap_body c sch options)) \<longleftrightarrow>
   LoadFiles v \<in> set (snd (resolved_config c options))"
proof (cases rule: bootstrap_body_cases [of c options sch])
  case (Sync_failed e t0)
  with sync_LoadFiles_iff [of v c options] show ?thesis by simp
next
  case (Pre_failed l0 t0 f t1)
  with sync_LoadFiles_iff [of v c options] call_emit_events' [OF Pre_failed(2), of "LoadFiles v"]
  show ?thesis by auto
next
  case (Chain l0 t0 l1 t1 p t2)
  with sync_LoadFiles_iff [of v c options] call_emit_events' [OF Chain(2), of "LoadFiles v"]
    then_chain_events [OF Chain(3), of "LoadFiles v"]
  show ?thesis by auto
qed

lemma body_trace_prefix:
  "\<exists>t. snd (bootstrap_body c sch options) = snd (resolved_config c options) @ t"
proof -
  have "\<exists>t. snd (bootstrap_sync c options) = snd (resolved_config c options) @ t"
    by (auto simp: bootstrap_sync_def identified_config_def split: prod.splits sum.splits)
  then obtain t where t: "snd (bootstrap_sync c options) = snd (resolved_config c options) @ t"
    by blast
  show ?thesis
    by (cases rule: bootstrap_body_cases [of c options sch]) (use t in auto)
qed

text \<open>
  C8. \<open>loadFiles\<close> is called in a run exactly when \<open>configSources\<close>, read from the
  merge of the defaults and the options, is not empty (\<open>_.isEmpty\<close>). When it is empty
  the whole run is the same whatever \<open>loadFiles\<close> would return. When it is not empty
  and \<open>loadFiles\<close> returns \<open>files\<close>, the run starts with the defaults, the first merge,
  the \<open>loadFiles\<close> call and a second merge, and the resolved config is built from the
  config merged with \<open>files\<close>.
\<close>

theorem files_loaded_iff_configSources:
  "((\<exists>v. LoadFiles v \<in> set (snd (bootstrap_body c sch options))) \<longleftrightarrow>
      \<not> isEmpty (get_prop (merge c (defaults c) options) ''configSources'')) \<and>
   (isEmpty (get_prop (merge c (defaults c) options) ''configSources'') \<longrightarrow>
      (\<forall>lf. bootstrap_body (c\<lparr>loadFiles := lf\<rparr>) sch options = bootstrap_body c sch options)) \<and>
   (\<not> isEmpty (get_prop (merge c (defaults c) options) ''configSources'') \<longrightarrow>
      (\<forall>files.
         loadFiles c (get_prop (merge c (defaults c) options) ''configSources'') = Inr files \<longrightarrow>
         take 4 (snd (bootstrap_body c sch options)) =
           [Defaults, Merge,
            LoadFiles (get_prop (merge c (defaults c) options) ''configSources''), Merge] \<and>
         fst (resolved_config c options) =
           (if has (merge c (merge c (defaults c) options) files) ''envPrefix'' then
              map_sum id (merge c (merge c (merge c (defaults c) options) files))
                (loadEnvs c
                   (get_prop (merge c (merge c (defaults c) options) files) ''envPrefix''))
            else Inr (merge c (merge c (defaults c) options) files))))"
proof -
  let ?cfg0 = "merge c (defaults c) options"
  let ?srcs = "get_prop ?cfg0 ''configSources''"
  have occurs: "(\<exists>v. LoadFiles v \<in> set (snd (resolved_config c options))) \<longleftrightarrow> \<not> isEmpty ?srcs"
    by (auto simp: resolved_config_def Let_def split: sum.splits)
  have prefix: "take 4 (snd (bootstrap_body c sch options)) =
      [Defaults, Merge, LoadFiles ?srcs, Merge]"
    and merged: "fst (resolved_config c options) =
      (if has (merge c ?cfg0 files) ''envPrefix'' then
         map_sum id (merge c (merge c ?cfg0 files))
           (loadEnvs c (get_prop (merge c ?cfg0 files) ''envPrefix''))
       else Inr (merge c ?cfg0 files))"
    if ne: "\<not> isEmpty ?srcs" and ok: "loadFiles c ?srcs = Inr files" for files
  proof -
    show "fst (resolved_config c options) =
      (if has (merge c ?cfg0 files) ''envPrefix'' then
         map_sum id (merge c (merge c ?cfg0 files))
           (loadEnvs c (get_prop (merge c ?cfg0 files) ''envPrefix''))
       else Inr (merge c ?cfg0 files))"
      using ne ok by (simp add: resolved_config_def Let_def split: sum.splits)
    have "\<exists>t. snd (resolved_config c options) = [Defaults, Merge, LoadFiles ?srcs, Merge] @ t"
      using ne ok by (simp add: resolved_config_def Let_def split: sum.splits)
    with body_trace_prefix [of c sch options]
    show "take 4 (snd (bootstrap_body c sch options)) =
        [Defaults, Merge, LoadFiles ?srcs, Merge]"
      by auto
  qed
  from occurs body_LoadFiles_iff [of _ c sch options] body_ignores_loadFiles [of c options _ sch]
    prefix merged
  show ?thesis by blast
qed

theorem files_loaded_iff_configSources_witness:
  "(\<forall>v. LoadFiles v \<notin> set (snd (bootstrap_body demo [] demo_plain_options))) \<and>
   bootstrap_body (demo\<lparr>loadFiles := loadFiles_spec broken_fs\<rparr>) [] demo_plain_options =
     bootstrap_body demo [] demo_plain_options \<and>
   LoadFiles (JArr [JStr ''/etc/lando.yml'']) \<in> set (snd (bootstrap_body demo [] demo_options)) \<and>
   get_prop (merge demo (defaults demo) demo_options) ''c'' = JUndef \<and>
   fst (resolved_config demo demo_options) =
     Inr [(''a'', JNum 4), (''b'', JNum 2), (''d'', JNum 1),
          (''x'', JObj [(''p'', JNum 3), (''q'', JNum 4)]),
          (''userConfRoot'', JStr ''/home/u''),
          (''configSources'', JArr [JStr ''/etc/lando.yml'']),
          (''envPrefix'', JStr ''LANDO_''), (''c'', JNum 3)]"
proof -
  have e: "isEmpty (get_prop (merge demo (defaults demo) demo_plain_options) ''configSources'')"
    by (simp add: run_defs demo_plain_options_def)
  have n: "\<not> isEmpty (get_prop (merge demo (defaults demo) demo_options) ''configSources'')"
    by (simp add: run_defs)
  have f: "loadFiles demo (get_prop (merge demo (defaults demo) demo_options) ''configSources'') =
      Inr [(''a'', JNum 3), (''c'', JNum 3), (''x'', JObj [(''p'', JNum 3)])]"
    by (simp add: run_defs)
  from files_loaded_iff_configSources [of demo "[]" demo_plain_options] e
  have 1: "\<forall>v. LoadFiles v \<notin> set (snd (bootstrap_body demo [] demo_plain_options))"
    and 2: "bootstrap_body (demo\<lparr>loadFiles := loadFiles_spec broken_fs\<rparr>) []
        demo_plain_options = bootstrap_body demo [] demo_plain_options"
    by blast+
  from files_loaded_iff_configSources [of demo "[]" demo_options] n f
  have "take 4 (snd (bootstrap_body demo [] demo_options)) =
      [Defaults, Merge,
       LoadFiles (get_prop (merge demo (defaults demo) demo_options) ''configSources''), Merge]"
    by blast
  then have 3: "LoadFiles (JArr [JStr ''/etc/lando.yml'']) \<in>
      set (snd (bootstrap_body demo [] demo_options))"
    by (simp add: run_defs)
  have 4: "get_prop (merge demo (defaults demo) demo_options) ''c'' = JUndef"
    by (simp add: run_defs)
  have 5: "fst (resolved_config demo demo_options) =
     Inr [(''a'', JNum 4), (''b'', JNum 2), (''d'', JNum 1),
          (''x'', JObj [(''p'', JNum 3), (''q'', JNum 4)]),
          (''userConfRoot'', JStr ''/home/u''),
          (''configSources'', JArr [JStr ''/etc/lando.yml'']),
          (''envPrefix'', JStr ''LANDO_''), (''c'', JNum 3)]"
    by (simp add: run_defs)
  from 1 2 3 4 5 show ?thesis by blast
qed

subsection \<open>No plugin list\<close>

lemma map_plugins_Nil: "map_plugins c sch [] l = (Inr l, [])"
  by (simp add: map_plugins_def)

text \<open>
  C10. Let the Instance be built and the \<open>pre-bootstrap\<close> emission be fulfilled, and let
  \<open>plugins\<close> then be absent from the Instance's config, or falsy. Then no plugin load is
  called, \<open>post-bootstrap\<close> is emitted with the Instance, and the result of bootstrap is
  the result of that emission alone: it is fulfilled when the emission is.
\<close>

theorem no_plugins_is_no_error:
  assumes "fst (bootstrap_sync c options) = Inr l0"
    and "fst (call_emit c ''pre-bootstrap'' (ConfigRef (config l0)) l0) = Inr (Fulfilled l1)"
    and "\<not> truthy (get_prop (config l1) ''plugins'')"
  shows "(\<forall>p dirs. LoadCall p dirs \<notin> set (snd (bootstrap_body c sch options))) \<and>
         Emit ''post-bootstrap'' InstanceRef \<in> set (snd (bootstrap_body c sch options)) \<and>
         fst (bootstrap_body c sch options) =
           (case fst (call_emit c ''post-bootstrap'' InstanceRef l1) of
              Inl e \<Rightarrow> Inr (Rejected e)
            | Inr p \<Rightarrow> Inr p)"
proof -
  obtain t0 where s: "bootstrap_sync c options = (Inr l0, t0)"
    using assms(1) by (cases "bootstrap_sync c options") simp
  obtain t1 where m: "call_emit c ''pre-bootstrap'' (ConfigRef (config l0)) l0 =
      (Inr (Fulfilled l1), t1)"
    using assms(2) by (cases "call_emit c ''pre-bootstrap'' (ConfigRef (config l0)) l0") simp
  have arr: "as_array c (plugins_or_empty (config l1)) = Some []"
    using assms(3) by (simp add: as_array_def plugins_or_empty_def)
  show ?thesis
  proof (cases rule: call_emit_cases [of c "''post-bootstrap''" InstanceRef l1])
    case (Threw e)
    then have "bootstrap_body c sch options =
        (Inr (Rejected e),
         t0 @ t1 @ [Log ''debug'' ''Config set: %j'', Emit ''post-bootstrap'' InstanceRef])"
      using s m arr
      by (simp add: bootstrap_body_def then_chain_def post_bootstrap_def map_plugins_Nil)
    with Threw show ?thesis
      by (auto dest: bootstrap_sync_events [OF s] call_emit_events' [OF m])
  next
    case (Rejected e)
    then have "bootstrap_body c sch options =
        (Inr (Rejected e),
         t0 @ t1 @ [Log ''debug'' ''Config set: %j'', Emit ''post-bootstrap'' InstanceRef])"
      using s m arr
      by (simp add: bootstrap_body_def then_chain_def post_bootstrap_def map_plugins_Nil)
    with Rejected show ?thesis
      by (auto dest: bootstrap_sync_events [OF s] call_emit_events' [OF m])
  next
    case (Fulfilled l3)
    then have "bootstrap_body c sch options =
        (Inr (Fulfilled l3),
         t0 @ t1 @ [Log ''debug'' ''Config set: %j'', Emit ''post-bootstrap'' InstanceRef,
                    EmitDone ''post-bootstrap'', Log ''info'' ''Bootstrap completed.''])"
      using s m arr
      by (simp add: bootstrap_body_def then_chain_def post_bootstrap_def map_plugins_Nil)
    with Fulfilled show ?thesis
      by (auto dest: bootstrap_sync_events [OF s] call_emit_events' [OF m])
  qed
qed

theorem no_plugins_is_no_error_witness:
  "(\<forall>p dirs. LoadCall p dirs \<notin> set (snd (bootstrap_body demo [] demo_options))) \<and>
   Emit ''post-bootstrap'' InstanceRef \<in> set (snd (bootstrap_body demo [] demo_options)) \<and>
   fst (bootstrap_body demo [] demo_options) =
     Inr (Fulfilled
       \<lparr>config = [(''a'', JNum 4), (''b'', JNum 2), (''d'', JNum 1),
                  (''x'', JObj [(''p'', JNum 3), (''q'', JNum 4)]),
                  (''userConfRoot'', JStr ''/home/u''),
                  (''configSources'', JArr [JStr ''/etc/lando.yml'']),
                  (''envPrefix'', JStr ''LANDO_''), (''c'', JNum 3),
                  (''id'', JStr ''id:/home/u'')],
        ext = []\<rparr>)"
proof -
  let ?l = "\<lparr>config = [(''a'', JNum 4), (''b'', JNum 2), (''d'', JNum 1),
                  (''x'', JObj [(''p'', JNum 3), (''q'', JNum 4)]),
                  (''userConfRoot'', JStr ''/home/u''),
                  (''configSources'', JArr [JStr ''/etc/lando.yml'']),
                  (''envPrefix'', JStr ''LANDO_''), (''c'', JNum 3),
                  (''id'', JStr ''id:/home/u'')],
        ext = []\<rparr> :: string list lando"
  have a: "fst (bootstrap_sync demo demo_options) = Inr ?l"
    by (simp add: run_defs)
  have b: "fst (call_emit demo ''pre-bootstrap'' (ConfigRef (config ?l)) ?l) = Inr (Fulfilled ?l)"
    by (simp add: run_defs)
  have c: "\<not> truthy (get_prop (config ?l) ''plugins'')"
    by (simp add: get_prop_def)
  have d: "fst (call_emit demo ''post-bootstrap'' InstanceRef ?l) = Inr (Fulfilled ?l)"
    by (simp add: run_defs)
  from no_plugins_is_no_error [OF a b c, of "[]"] d show ?thesis
    by simp
qed

subsection \<open>The lifecycle monitor\<close>

lemma lifecycle_append:
  "lifecycle s (a @ b) = (case lifecycle s a of None \<Rightarrow> None | Some s' \<Rightarrow> lifecycle s' b)"
  by (induction a arbitrary: s) (auto split: option.splits)

lemma lifecycle_setup: "\<forall>e\<in>set t. setup_event e \<Longrightarrow> lifecycle s t = Some s"
proof (induction t)
  case Nil
  then show ?case by simp
next
  case (Cons a t)
  then show ?case by (cases s; cases a) simp_all
qed

lemma sweep_lifecycle:
  "sweep c ps l = (r, t) \<Longrightarrow>
   \<exists>out'. lifecycle (PreDone, out) t = Some (PreDone, out') \<and>
     (\<forall>l2 pend. r = Inr (l2, pend) \<longrightarrow> mset out' = mset (map fst pend) + mset out)"
proof (induction ps arbitrary: l r t out)
  case Nil
  then show ?case by auto
next
  case (Cons p ps)
  show ?case
  proof (cases "load c p (get_prop (config l) ''pluginDirs'') l")
    case (Throw e)
    with Cons.prems show ?thesis by auto
  next
    case (RejectNow e)
    with Cons.prems show ?thesis by auto
  next
    case (Return l1 segs)
    obtain r' t' where sw: "sweep c ps l1 = (r', t')" by (cases "sweep c ps l1")
    show ?thesis
    proof (cases "segs = []")
      case True
      from Cons.IH [OF sw, of out] Cons.prems Return sw True show ?thesis
        by (cases r') auto
    next
      case False
      from Cons.IH [OF sw, of "p # out"] Cons.prems Return sw False show ?thesis
        by (cases r') auto
    qed
  qed
qed

lemma pick_less: "pend \<noteq> [] \<Longrightarrow> pick sch (length pend) < length pend"
  by (simp add: pick_def split: list.splits)

lemma mset_drop_nth:
  "i < length xs \<Longrightarrow> mset (drop_nth i xs) + {#xs ! i#} = mset xs"
proof -
  assume "i < length xs"
  then have "xs = take i xs @ xs ! i # drop (Suc i) xs"
    by (simp add: id_take_nth_drop)
  then have "mset xs = mset (take i xs @ xs ! i # drop (Suc i) xs)"
    by simp
  then show ?thesis
    by (simp add: drop_nth_def)
qed

lemma map_drop_nth: "map f (drop_nth i xs) = drop_nth i (map f xs)"
  by (simp add: drop_nth_def take_map drop_map)

lemma drain_lifecycle:
  "drain sch pend l = (r, t) \<Longrightarrow> mset (map fst pend) \<subseteq># mset out \<Longrightarrow>
   \<exists>out'. lifecycle (PreDone, out) t = Some (PreDone, out') \<and>
     (\<forall>l2. r = Inr l2 \<longrightarrow> mset out' + mset (map fst pend) = mset out)"
proof (induction sch pend l arbitrary: r t out rule: drain.induct)
  case (1 sch pend l)
  show ?case
  proof (cases "pend = []")
    case True
    with "1.prems" show ?thesis by (simp add: drain.simps)
  next
    case False
    define i where "i = pick sch (length pend)"
    have i: "i < length pend" using False by (simp add: i_def pick_less)
    define p where "p = fst (pend ! i)"
    define step where
      "step = (case snd (pend ! i) of [] \<Rightarrow> Inr l | g # rest \<Rightarrow> g l)"
    have p_in: "p \<in># mset (map fst pend)"
      using i by (simp add: p_def)
    show ?thesis
    proof (cases step)
      case (Inl e)
      with "1.prems"(1) False show ?thesis
        by (subst (asm) drain.simps) (auto simp: step_def i_def)
    next
      case (Inr l1)
      show ?thesis
      proof (cases "tl (snd (pend ! i)) = []")
        case True
        obtain r' t' where rec: "drain (tl sch) (drop_nth i pend) l1 = (r', t')"
          by (cases "drain (tl sch) (drop_nth i pend) l1")
        from "1.prems"(1) False Inr True rec have rt: "r = r'" "t = LoadDone p # t'"
          by (subst (asm) drain.simps, simp add: step_def i_def p_def)+
        have split: "mset (map fst (drop_nth i pend)) + {#p#} = mset (map fst pend)"
          using mset_drop_nth [of i "map fst pend"] i by (simp add: map_drop_nth p_def)
        from p_in "1.prems"(2) have p_out: "p \<in> set out"
          by (metis mset_subset_eqD set_mset_mset)
        have sub: "mset (map fst (drop_nth i pend)) \<subseteq># mset (remove1 p out)"
        proof -
          from split "1.prems"(2) have "mset (map fst (drop_nth i pend)) + {#p#} \<subseteq># mset out"
            by simp
          then obtain rest where "mset out = mset (map fst (drop_nth i pend)) + {#p#} + rest"
            by (auto simp: mset_subset_eq_exists_conv)
          then have "mset (map fst (drop_nth i pend)) \<subseteq># mset out - {#p#}"
            by simp
          then show ?thesis by simp
        qed
        from "1.IH"(1) [OF False Inr [unfolded step_def i_def] True [unfolded i_def]
            rec [unfolded i_def] sub [unfolded i_def]]
        obtain out' where o: "lifecycle (PreDone, remove1 p out) t' = Some (PreDone, out')"
          "\<forall>l2. r' = Inr l2 \<longrightarrow>
             mset out' + mset (map fst (drop_nth i pend)) = mset (remove1 p out)"
          by (auto simp: step_def i_def)
        have "mset out' + mset (map fst pend) = mset out" if "r' = Inr l2" for l2
        proof -
          from o(2) that have "mset out' + mset (map fst (drop_nth i pend)) = mset out - {#p#}"
            by simp
          then have "mset out' + (mset (map fst (drop_nth i pend)) + {#p#}) = mset out"
            using p_out by (simp add: insert_DiffM)
          with split show ?thesis by simp
        qed
        with o(1) rt p_out show ?thesis by auto
      next
        case more: False
        let ?pend' = "pend[i := (fst (pend ! i), tl (snd (pend ! i)))]"
        have same: "map fst ?pend' = map fst pend"
          using i by (simp add: map_update list_update_same_conv)
        from "1.prems"(1) False Inr more have rec: "drain (tl sch) ?pend' l1 = (r, t)"
          by (subst (asm) drain.simps) (simp add: step_def i_def)
        from "1.prems"(2) same have sub': "mset (map fst ?pend') \<subseteq># mset out"
          by simp
        from "1.IH"(2) [OF False Inr [unfolded step_def i_def] more [unfolded i_def]
            rec [unfolded i_def] sub' [unfolded i_def]]
        show ?thesis
          unfolding same [unfolded i_def] .
      qed
    qed
  qed
qed

lemma map_plugins_lifecycle:
  assumes "map_plugins c sch ps l = (r, t)"
  shows "\<exists>out'. lifecycle (PreDone, []) t = Some (PreDone, out') \<and>
           (\<forall>l2. r = Inr l2 \<longrightarrow> out' = [])"
proof -
  obtain r1 t1 where sw: "sweep c ps l = (r1, t1)" by (cases "sweep c ps l")
  from sweep_lifecycle [OF sw, of "[]"] obtain out1
    where o1: "lifecycle (PreDone, []) t1 = Some (PreDone, out1)"
      and m1: "\<forall>l2 pend. r1 = Inr (l2, pend) \<longrightarrow> mset out1 = mset (map fst pend) + mset []"
    by blast
  show ?thesis
  proof (cases r1)
    case (Inl e)
    with sw assms o1 show ?thesis by (auto simp: map_plugins_def)
  next
    case (Inr lp)
    obtain l1 pend where lp: "lp = (l1, pend)" by (cases lp)
    obtain r2 t2 where dr: "drain sch pend l1 = (r2, t2)" by (cases "drain sch pend l1")
    from m1 Inr lp have eq: "mset out1 = mset (map fst pend)" by simp
    then have "mset (map fst pend) \<subseteq># mset out1" by simp
    from drain_lifecycle [OF dr this] obtain out2
      where o2: "lifecycle (PreDone, out1) t2 = Some (PreDone, out2)"
        and m2: "\<forall>l2. r2 = Inr l2 \<longrightarrow> mset out2 + mset (map fst pend) = mset out1"
      by blast
    from sw Inr lp dr assms have rt: "r = r2" "t = t1 @ t2" by (simp_all add: map_plugins_def)
    have "out2 = []" if "r2 = Inr l2" for l2
      using m2 that eq by simp
    with o1 o2 rt show ?thesis
      by (auto simp: lifecycle_append)
  qed
qed

lemma lifecycle_pre_done:
  "lifecycle (ph, out) a = Some (ph', out') \<Longrightarrow> ph = Created \<or> ph = PreEmitted \<Longrightarrow>
   ph' \<noteq> Created \<Longrightarrow> ph' \<noteq> PreEmitted \<Longrightarrow> EmitDone ''pre-bootstrap'' \<in> set a"
proof (induction a arbitrary: ph out)
  case Nil
  then show ?case by auto
next
  case (Cons e a)
  from Cons.prems(1) obtain ph1 out1 where
    st: "lifecycle_step (ph, out) e = Some (ph1, out1)"
    and rest: "lifecycle (ph1, out1) a = Some (ph', out')"
    by (auto split: option.splits)
  show ?case
  proof (cases "ph1 = Created \<or> ph1 = PreEmitted")
    case True
    from Cons.IH [OF rest True Cons.prems(3,4)] show ?thesis by simp
  next
    case False
    with st Cons.prems(2) have "e = EmitDone ''pre-bootstrap''"
      by (cases e) (auto split: if_splits)
    then show ?thesis by simp
  qed
qed

lemma lifecycle_balance:
  "lifecycle (ph, out) a = Some (ph', out') \<Longrightarrow>
   mset out + mset (loaded a) = mset (completed a) + mset out'"
proof (induction a arbitrary: ph out)
  case Nil
  then show ?case by simp
next
  case (Cons e a)
  from Cons.prems obtain ph1 out1 where
    st: "lifecycle_step (ph, out) e = Some (ph1, out1)"
    and rest: "lifecycle (ph1, out1) a = Some (ph', out')"
    by (auto split: option.splits)
  show ?case
  proof (cases e)
    case (LoadDone p)
    with st have p: "p \<in> set out" and o1: "out1 = remove1 p out"
      by (auto split: if_splits)
    have "mset out + mset (loaded a) = add_mset p (mset out1 + mset (loaded a))"
      using p by (simp add: o1)
    also have "\<dots> = add_mset p (mset (completed a) + mset out')"
      by (simp only: Cons.IH [OF rest])
    finally show ?thesis
      using LoadDone by simp
  qed (use Cons.IH [OF rest] st in \<open>auto split: if_splits\<close>)
qed

lemma lifecycle_after_post:
  "lifecycle (ph, out) b = Some st \<Longrightarrow> ph = PostEmitted \<or> ph = Ready \<Longrightarrow>
   \<forall>e\<in>set b. \<not> plugin_event e"
proof (induction b arbitrary: ph out)
  case Nil
  then show ?case by simp
next
  case (Cons e b)
  from Cons.prems(1) obtain ph1 out1 where
    st: "lifecycle_step (ph, out) e = Some (ph1, out1)"
    and rest: "lifecycle (ph1, out1) b = Some st"
    by (auto split: option.splits)
  from st Cons.prems(2) have "\<not> plugin_event e" and "ph1 = PostEmitted \<or> ph1 = Ready"
    by (cases e; auto split: if_splits)+
  with Cons.IH [OF rest] show ?case by simp
qed

lemma setup_not_emit: "setup_event e \<Longrightarrow> \<not> emit_event e"
  by (cases e) simp_all

lemma then_chain_lifecycle:
  assumes "then_chain c sch l1 = (p, t)"
  shows "\<exists>st. lifecycle (PreDone, []) t = Some st \<and> (\<forall>l. p = Fulfilled l \<longrightarrow> st = (Ready, []))"
proof (cases rule: then_chain_cases [of c l1 sch])
  case Not_iterable
  with assms show ?thesis by auto
next
  case (Load_failed ps e t2)
  from map_plugins_lifecycle [OF Load_failed(2)] Load_failed(3) assms show ?thesis
    by auto
next
  case (Loaded ps l2 t2 p' t3)
  from map_plugins_lifecycle [OF Loaded(2)]
  have t2: "lifecycle (PreDone, []) t2 = Some (PreDone, [])" by auto
  show ?thesis
  proof (cases rule: post_bootstrap_cases [of c l2])
    case (Rejected e)
    with Loaded assms t2 show ?thesis by (auto simp: lifecycle_append)
  next
    case (Fulfilled l3)
    with Loaded assms t2 show ?thesis by (auto simp: lifecycle_append)
  qed
qed

subsection \<open>Plugin loading\<close>

lemma loaded_append: "loaded (a @ b) = loaded a @ loaded b"
  by (induction a rule: loaded.induct) simp_all

lemma loaded_no_plugin: "\<forall>e\<in>set t. \<not> plugin_event e \<Longrightarrow> loaded t = []"
proof (induction t)
  case Nil
  then show ?case by simp
next
  case (Cons a t)
  then show ?case by (cases a) simp_all
qed

lemma loaded_LoadCall: "LoadCall p dirs \<in> set t \<Longrightarrow> p \<in> set (loaded t)"
  by (induction t rule: loaded.induct) auto

lemma sweep_loaded:
  "sweep c ps l = (r, t) \<Longrightarrow> prefix (loaded t) ps \<and> (\<forall>x. r = Inr x \<longrightarrow> loaded t = ps)"
proof (induction ps arbitrary: l r t)
  case Nil
  then show ?case by auto
next
  case (Cons p ps)
  show ?case
  proof (cases "load c p (get_prop (config l) ''pluginDirs'') l")
    case (Throw e)
    with Cons.prems show ?thesis by auto
  next
    case (RejectNow e)
    with Cons.prems show ?thesis by auto
  next
    case (Return l1 segs)
    obtain r' t' where sw: "sweep c ps l1 = (r', t')" by (cases "sweep c ps l1")
    from Cons.IH [OF sw] Cons.prems Return sw show ?thesis
      by (cases r') (auto split: if_splits)
  qed
qed

lemma drain_only_done: "e \<in> set (snd (drain sch pend l)) \<Longrightarrow> \<exists>p. e = LoadDone p"
proof (induction sch pend l arbitrary: e rule: drain.induct)
  case (1 sch pend l)
  from "1.prems" show ?case
    apply (subst (asm) drain.simps)
    apply (auto split: if_splits sum.splits prod.splits list.splits dest: "1.IH")
    done
qed

lemma drain_loaded: "drain sch pend l = (r, t) \<Longrightarrow> loaded t = []"
proof -
  assume d: "drain sch pend l = (r, t)"
  have "loaded t = []" if "\<And>e. e \<in> set t \<Longrightarrow> \<exists>p. e = LoadDone p" for t
    using that
  proof (induction t)
    case Nil
    then show ?case by simp
  next
    case (Cons a t)
    from Cons.prems [of a] obtain p where "a = LoadDone p" by auto
    with Cons show ?case by simp
  qed
  moreover have "e \<in> set t \<Longrightarrow> \<exists>p. e = LoadDone p" for e
    using drain_only_done [of e sch pend l] d by simp
  ultimately show ?thesis by blast
qed

lemma map_plugins_loaded:
  assumes "map_plugins c sch ps l = (r, t)"
  shows "prefix (loaded t) ps \<and> (\<forall>x. r = Inr x \<longrightarrow> loaded t = ps)"
proof -
  obtain r1 t1 where sw: "sweep c ps l = (r1, t1)" by (cases "sweep c ps l")
  show ?thesis
  proof (cases r1)
    case (Inl e)
    with sw assms sweep_loaded [OF sw] show ?thesis by (auto simp: map_plugins_def)
  next
    case (Inr lp)
    obtain l1 pend where lp: "lp = (l1, pend)" by (cases lp)
    obtain r2 t2 where dr: "drain sch pend l1 = (r2, t2)" by (cases "drain sch pend l1")
    from sw Inr lp dr assms have "t = t1 @ t2" by (simp add: map_plugins_def)
    with sweep_loaded [OF sw] Inr drain_loaded [OF dr] show ?thesis
      by (simp add: loaded_append)
  qed
qed

lemma setup_not_plugin: "setup_event e \<Longrightarrow> \<not> plugin_event e"
  by (cases e) simp_all

lemma sweep_sequential:
  assumes sync: "\<forall>p dirs l1 l2 segs. load c p dirs l1 = Return l2 segs \<longrightarrow> segs = []"
  shows "sweep c ps l = (r, t) \<Longrightarrow>
         sequential t \<and> (\<forall>l2 pend. r = Inr (l2, pend) \<longrightarrow> pend = [])"
proof (induction ps arbitrary: l r t)
  case Nil
  then show ?case by auto
next
  case (Cons p ps)
  show ?case
  proof (cases "load c p (get_prop (config l) ''pluginDirs'') l")
    case (Throw e)
    with Cons.prems show ?thesis by auto
  next
    case (RejectNow e)
    with Cons.prems show ?thesis by auto
  next
    case (Return l1 segs)
    from sync Return have segs: "segs = []" by blast
    obtain r' t' where sw: "sweep c ps l1 = (r', t')" by (cases "sweep c ps l1")
    from Cons.IH [OF sw] Cons.prems Return sw segs show ?thesis
      by (cases r') auto
  qed
qed

lemma sweep_done_sync:
  "LoadDone p \<in> set (snd (sweep c ps l)) \<Longrightarrow> \<exists>dirs l1 l2. load c p dirs l1 = Return l2 []"
proof (induction ps arbitrary: l)
  case Nil
  then show ?case by simp
next
  case (Cons q ps)
  show ?case
  proof (cases "load c q (get_prop (config l) ''pluginDirs'') l")
    case (Throw e)
    with Cons.prems show ?thesis by simp
  next
    case (RejectNow e)
    with Cons.prems show ?thesis by simp
  next
    case (Return l1 segs)
    obtain r' t' where sw: "sweep c ps l1 = (r', t')" by (cases "sweep c ps l1")
    from Cons.prems Return sw
    have "(segs = [] \<and> p = q) \<or> LoadDone p \<in> set t'"
      by (cases r') (auto split: if_splits)
    then show ?thesis
    proof
      assume "segs = [] \<and> p = q"
      with Return show ?thesis by blast
    next
      assume "LoadDone p \<in> set t'"
      with Cons.IH [of l1] sw show ?thesis by simp
    qed
  qed
qed

lemma map_plugins_trace:
  assumes "map_plugins c sch ps l = (r, t)"
  shows "\<exists>t2. t = snd (sweep c ps l) @ t2 \<and> (\<forall>e\<in>set t2. \<exists>q. e = LoadDone q)"
proof -
  obtain r1 t1 where sw: "sweep c ps l = (r1, t1)" by (cases "sweep c ps l")
  show ?thesis
  proof (cases r1)
    case (Inl e)
    with sw assms show ?thesis by (simp add: map_plugins_def)
  next
    case (Inr lp)
    obtain l1 pend where lp: "lp = (l1, pend)" by (cases lp)
    obtain r2 t2 where dr: "drain sch pend l1 = (r2, t2)" by (cases "drain sch pend l1")
    have "\<forall>e\<in>set t2. \<exists>q. e = LoadDone q"
      using drain_only_done [of _ sch pend l1] dr by simp
    with sw Inr lp dr assms show ?thesis by (auto simp: map_plugins_def)
  qed
qed

lemma pending_done_after_calls:
  assumes "map_plugins c sch ps l = (r, t)"
    and pend: "\<forall>dirs l1 l2 segs. load c p dirs l1 = Return l2 segs \<longrightarrow> segs \<noteq> []"
    and dec: "t = a @ LoadDone p # b"
  shows "\<forall>e\<in>set b. \<exists>q. e = LoadDone q"
proof -
  from map_plugins_trace [OF assms(1)] obtain t2
    where t: "t = snd (sweep c ps l) @ t2" and t2: "\<forall>e\<in>set t2. \<exists>q. e = LoadDone q"
    by blast
  from pend sweep_done_sync [of p c ps l] have notin: "LoadDone p \<notin> set (snd (sweep c ps l))"
    by blast
  from t dec have "snd (sweep c ps l) @ t2 = a @ LoadDone p # b" by simp
  then obtain us where
    "(snd (sweep c ps l) = a @ us \<and> us @ t2 = LoadDone p # b) \<or>
     (snd (sweep c ps l) @ us = a \<and> t2 = us @ LoadDone p # b)"
    by (auto simp: append_eq_append_conv2)
  then show ?thesis
  proof
    assume h: "snd (sweep c ps l) = a @ us \<and> us @ t2 = LoadDone p # b"
    show ?thesis
    proof (cases us)
      case Nil
      with h t2 show ?thesis by auto
    next
      case (Cons x xs)
      with h have "LoadDone p \<in> set (snd (sweep c ps l))" by auto
      with notin show ?thesis by simp
    qed
  next
    assume "snd (sweep c ps l) @ us = a \<and> t2 = us @ LoadDone p # b"
    with t2 show ?thesis by auto
  qed
qed

lemma map_plugins_completed:
  assumes "map_plugins c sch ps l = (Inr l2, t)"
  shows "mset (completed t) = mset ps"
proof -
  from map_plugins_lifecycle [OF assms]
  have "lifecycle (PreDone, []) t = Some (PreDone, [])" by auto
  from lifecycle_balance [OF this] map_plugins_loaded [OF assms] show ?thesis
    by simp
qed

lemma post_after_all_loads:
  assumes arr: "as_array c (plugins_or_empty (config l)) = Some ps"
    and mp: "map_plugins c sch ps l = (r, t)"
  shows "((\<exists>pl. Emit ''post-bootstrap'' pl \<in> set (snd (then_chain c sch l))) \<longleftrightarrow>
           (\<exists>l2. r = Inr l2)) \<and>
         (\<forall>a pl b. snd (then_chain c sch l) = a @ Emit ''post-bootstrap'' pl # b \<longrightarrow>
            loaded a = ps \<and> mset (completed a) = mset ps \<and> (\<forall>e\<in>set b. \<not> plugin_event e))"
proof -
  obtain p' t' where tc: "then_chain c sch l = (p', t')" by (cases "then_chain c sch l")
  have no_post: "Emit ''post-bootstrap'' pl \<notin> set t" for pl
    using map_plugins_events' [OF mp, of "Emit ''post-bootstrap'' pl"] by auto
  have iff: "(\<exists>pl. Emit ''post-bootstrap'' pl \<in> set t') \<longleftrightarrow> (\<exists>l2. r = Inr l2)"
    and whole: "(\<exists>pl. Emit ''post-bootstrap'' pl \<in> set t') \<longrightarrow> loaded t' = ps"
  proof -
    show "(\<exists>pl. Emit ''post-bootstrap'' pl \<in> set t') \<longleftrightarrow> (\<exists>l2. r = Inr l2)"
    proof (cases r)
      case (Inl e)
      with arr mp tc have "t' = Log ''debug'' ''Config set: %j'' # t"
        by (simp add: then_chain_def)
      with Inl no_post show ?thesis by auto
    next
      case (Inr l2)
      then show ?thesis
        using arr mp tc
        by (cases rule: post_bootstrap_cases [of c l2]) (auto simp: then_chain_def)
    qed
    show "(\<exists>pl. Emit ''post-bootstrap'' pl \<in> set t') \<longrightarrow> loaded t' = ps"
    proof (cases r)
      case (Inl e)
      with arr mp tc have "t' = Log ''debug'' ''Config set: %j'' # t"
        by (simp add: then_chain_def)
      with Inl no_post show ?thesis by auto
    next
      case (Inr l2)
      obtain p3 t3 where pb: "post_bootstrap c l2 = (p3, t3)" by (cases "post_bootstrap c l2")
      have "loaded t3 = []"
        by (rule loaded_no_plugin) (auto dest: post_bootstrap_events [OF pb])
      moreover from arr mp tc Inr pb have "t' = Log ''debug'' ''Config set: %j'' # t @ t3"
        by (simp add: then_chain_def)
      ultimately show ?thesis
        using map_plugins_loaded [OF mp] Inr by (simp add: loaded_append)
    qed
  qed
  have dec: "loaded a = ps \<and> mset (completed a) = mset ps \<and> (\<forall>e\<in>set b. \<not> plugin_event e)"
    if d: "t' = a @ Emit ''post-bootstrap'' pl # b" for a pl b
  proof -
    from then_chain_lifecycle [OF tc] obtain st where acc: "lifecycle (PreDone, []) t' = Some st"
      by blast
    from acc d obtain ph out s1 where a: "lifecycle (PreDone, []) a = Some (ph, out)"
      and s: "lifecycle_step (ph, out) (Emit ''post-bootstrap'' pl) = Some s1"
      and b: "lifecycle s1 b = Some st"
      by (auto simp: lifecycle_append split: option.splits)
    from s have out: "out = []" and s1: "s1 = (PostEmitted, [])"
      by (auto split: if_splits)
    from lifecycle_balance [OF a] out have bal: "mset (completed a) = mset (loaded a)" by simp
    from lifecycle_after_post [of PostEmitted "[]" b st] b s1
    have nob: "\<forall>e\<in>set b. \<not> plugin_event e" by simp
    then have "loaded b = []" by (rule loaded_no_plugin)
    with d have "loaded t' = loaded a" by (simp add: loaded_append)
    moreover from d whole have "loaded t' = ps" by auto
    ultimately show ?thesis using bal nob by simp
  qed
  from iff dec tc show ?thesis by simp
qed

text \<open>
  C4, as the code has it. \<open>.map\<close> calls the loader for the entries of the plugin list in
  list order: the plugins called are a prefix of the list, and the whole list when
  \<open>.map\<close> is fulfilled. When every load is complete as its call returns (no promise left
  pending), the loads are sequential: each one is completed before the next is called.
  A load that returns a pending promise is not awaited before the next call: for a plugin
  whose load returns a pending promise, nothing but completions follows its completion
  in the trace, so every call of the loop has been made before it. The loads are awaited
  together: \<open>.map\<close> is fulfilled only when every plugin of the list has been called and
  completed, \<open>post-bootstrap\<close> is emitted exactly when \<open>.map\<close> is fulfilled, that is
  after all of that, and no step of plugin loading follows it.
\<close>

theorem plugins_called_in_list_order:
  assumes "map_plugins c sch ps l = (r, t)"
  shows "prefix (loaded t) ps \<and>
         (\<forall>l2. r = Inr l2 \<longrightarrow> loaded t = ps \<and> mset (completed t) = mset ps) \<and>
         ((\<forall>p dirs l1 l2 segs. load c p dirs l1 = Return l2 segs \<longrightarrow> segs = []) \<longrightarrow>
            sequential t) \<and>
         (\<forall>p. (\<forall>dirs l1 l2 segs. load c p dirs l1 = Return l2 segs \<longrightarrow> segs \<noteq> []) \<longrightarrow>
            (\<forall>a b. t = a @ LoadDone p # b \<longrightarrow> (\<forall>e\<in>set b. \<exists>q. e = LoadDone q))) \<and>
         (as_array c (plugins_or_empty (config l)) = Some ps \<longrightarrow>
            ((\<exists>pl. Emit ''post-bootstrap'' pl \<in> set (snd (then_chain c sch l))) \<longleftrightarrow>
               (\<exists>l2. r = Inr l2)) \<and>
            (\<forall>a pl b. snd (then_chain c sch l) = a @ Emit ''post-bootstrap'' pl # b \<longrightarrow>
               loaded a = ps \<and> mset (completed a) = mset ps \<and>
               (\<forall>e\<in>set b. \<not> plugin_event e)))"
proof -
  have seq: "sequential t"
    if sync: "\<forall>p dirs l1 l2 segs. load c p dirs l1 = Return l2 segs \<longrightarrow> segs = []"
  proof -
    obtain r1 t1 where sw: "sweep c ps l = (r1, t1)" by (cases "sweep c ps l")
    from sweep_sequential [OF sync sw]
    have seq: "sequential t1" and none: "\<forall>l2 pend. r1 = Inr (l2, pend) \<longrightarrow> pend = []"
      by blast+
    show ?thesis
    proof (cases r1)
      case (Inl e)
      with sw assms seq show ?thesis by (simp add: map_plugins_def)
    next
      case (Inr lp)
      obtain l1 pend where lp: "lp = (l1, pend)" by (cases lp)
      with Inr none have "pend = []" by simp
      with sw Inr lp assms seq show ?thesis by (simp add: map_plugins_def)
    qed
  qed
  have full: "loaded t = ps \<and> mset (completed t) = mset ps" if "r = Inr l2" for l2
    using that assms map_plugins_loaded [OF assms] map_plugins_completed [of c sch ps l l2 t]
    by simp
  have late: "\<forall>e\<in>set b. \<exists>q. e = LoadDone q"
    if "\<forall>dirs l1 l2 segs. load c p dirs l1 = Return l2 segs \<longrightarrow> segs \<noteq> []"
      and "t = a @ LoadDone p # b" for p a b
    using pending_done_after_calls [OF assms that] .
  from map_plugins_loaded [OF assms] have pre: "prefix (loaded t) ps" by simp
  from pre full seq late post_after_all_loads [OF _ assms]
  show ?thesis by blast
qed

theorem plugins_called_in_list_order_witness:
  "map_plugins demo [] [JStr ''p1'', JStr ''p2''] demo_instance =
     (Inr (demo_instance\<lparr>ext := [''p1'', ''p2'']\<rparr>),
      [LoadCall (JStr ''p1'') (JArr [JStr ''/plugins'']), LoadDone (JStr ''p1''),
       LoadCall (JStr ''p2'') (JArr [JStr ''/plugins'']), LoadDone (JStr ''p2'')]) \<and>
   sequential (snd (map_plugins demo [] [JStr ''p1'', JStr ''p2''] demo_instance)) \<and>
   map_plugins demo_async [] [JStr ''p1'', JStr ''p2''] demo_instance =
     (Inr (demo_instance\<lparr>ext := [''p1:begin'', ''p2:begin'', ''p1:end'', ''p2:end'']\<rparr>),
      [LoadCall (JStr ''p1'') (JArr [JStr ''/plugins'']),
       LoadCall (JStr ''p2'') (JArr [JStr ''/plugins'']),
       LoadDone (JStr ''p1''), LoadDone (JStr ''p2'')]) \<and>
   loaded (snd (map_plugins demo_async [] [JStr ''p1'', JStr ''p2''] demo_instance)) =
     [JStr ''p1'', JStr ''p2''] \<and>
   mset (completed (snd (map_plugins demo_async [] [JStr ''p1'', JStr ''p2''] demo_instance))) =
     mset [JStr ''p1'', JStr ''p2''] \<and>
   (\<exists>q. LoadDone (JStr ''p2'') = LoadDone q) \<and>
   snd (then_chain demo_async [] demo_instance) =
     [Log ''debug'' ''Config set: %j'',
      LoadCall (JStr ''p1'') (JArr [JStr ''/plugins'']),
      LoadCall (JStr ''p2'') (JArr [JStr ''/plugins'']),
      LoadDone (JStr ''p1''), LoadDone (JStr ''p2''),
      Emit ''post-bootstrap'' InstanceRef, EmitDone ''post-bootstrap'',
      Log ''info'' ''Bootstrap completed.''] \<and>
   mset (completed
      [Log ''debug'' ''Config set: %j'',
       LoadCall (JStr ''p1'') (JArr [JStr ''/plugins'']),
       LoadCall (JStr ''p2'') (JArr [JStr ''/plugins'']),
       LoadDone (JStr ''p1''), LoadDone (JStr ''p2'')]) = mset [JStr ''p1'', JStr ''p2'']"
proof -
  let ?ps = "[JStr ''p1'', JStr ''p2'']"
  let ?dirs = "JArr [JStr ''/plugins'']"
  let ?loads = "[LoadCall (JStr ''p1'') ?dirs, LoadCall (JStr ''p2'') ?dirs,
      LoadDone (JStr ''p1''), LoadDone (JStr ''p2'')]"
  have run: "map_plugins demo [] ?ps demo_instance =
     (Inr (demo_instance\<lparr>ext := [''p1'', ''p2'']\<rparr>),
      [LoadCall (JStr ''p1'') ?dirs, LoadDone (JStr ''p1''),
       LoadCall (JStr ''p2'') ?dirs, LoadDone (JStr ''p2'')])"
    by (simp add: run_defs demo_instance_def)
  have sync: "\<forall>p dirs l1 l2 segs. load demo p dirs l1 = Return l2 segs \<longrightarrow> segs = []"
    by (auto simp: demo_def split: jval.splits)
  from plugins_called_in_list_order [OF run] sync
  have seq: "sequential [LoadCall (JStr ''p1'') ?dirs, LoadDone (JStr ''p1''),
       LoadCall (JStr ''p2'') ?dirs, LoadDone (JStr ''p2'')]"
    by blast
  have arun: "map_plugins demo_async [] ?ps demo_instance =
     (Inr (demo_instance\<lparr>ext := [''p1:begin'', ''p2:begin'', ''p1:end'', ''p2:end'']\<rparr>),
      ?loads)"
    by (simp add: run_defs demo_async_def demo_instance_def finish_registration_def)
  have pend: "\<forall>dirs l1 l2 segs. load demo_async (JStr ''p1'') dirs l1 = Return l2 segs \<longrightarrow>
      segs \<noteq> []"
    by (auto simp: demo_async_def)
  have arr: "as_array demo_async (plugins_or_empty (config demo_instance)) = Some ?ps"
    by (simp add: run_defs demo_instance_def)
  have chain: "snd (then_chain demo_async [] demo_instance) =
      (Log ''debug'' ''Config set: %j'' # ?loads) @ Emit ''post-bootstrap'' InstanceRef #
        [EmitDone ''post-bootstrap'', Log ''info'' ''Bootstrap completed.'']"
    by (simp add: run_defs demo_async_def demo_instance_def finish_registration_def)
  have dec: "?loads = [LoadCall (JStr ''p1'') ?dirs, LoadCall (JStr ''p2'') ?dirs] @
      LoadDone (JStr ''p1'') # [LoadDone (JStr ''p2'')]"
    by simp
  note inst = plugins_called_in_list_order [OF arun]
  from inst have full: "loaded ?loads = ?ps \<and> mset (completed ?loads) = mset ?ps"
    by blast
  from inst pend dec have late: "\<forall>e\<in>set [LoadDone (JStr ''p2'')]. \<exists>q. e = LoadDone q"
    by blast
  from inst arr chain
  have post: "mset (completed (Log ''debug'' ''Config set: %j'' # ?loads)) = mset ?ps"
    by blast
  from run seq arun full late chain post show ?thesis
    by simp
qed

text \<open>
  C4 as stated fails when a load returns a pending promise: \<open>.map\<close> does not wait for
  it. Here the loader is called for \<open>p2\<close> before the registration of \<open>p1\<close> has
  ended, as the trace and the Instance's registration log both show.
\<close>

theorem plugins_called_in_list_order_counterexample:
  "map_plugins demo_async [] [JStr ''p1'', JStr ''p2''] demo_instance =
     (Inr (demo_instance\<lparr>ext := [''p1:begin'', ''p2:begin'', ''p1:end'', ''p2:end'']\<rparr>),
      [LoadCall (JStr ''p1'') (JArr [JStr ''/plugins'']),
       LoadCall (JStr ''p2'') (JArr [JStr ''/plugins'']),
       LoadDone (JStr ''p1''), LoadDone (JStr ''p2'')]) \<and>
   \<not> sequential (snd (map_plugins demo_async [] [JStr ''p1'', JStr ''p2''] demo_instance))"
  by (simp add: run_defs demo_async_def demo_instance_def finish_registration_def)

text \<open>
  C9. Let the Instance be built and let the \<open>pre-bootstrap\<close> emission be fulfilled,
  leaving the Instance \<open>l1\<close>. The plugin list is read from the config of \<open>l1\<close>, that is
  after every handler has run: the plugins the loader is called for are a prefix of that
  list, in order, and all of it whenever \<open>post-bootstrap\<close> is reached. The config the
  Instance had before the emission plays no part.
\<close>

theorem plugin_list_read_after_pre_bootstrap:
  assumes "fst (bootstrap_sync c options) = Inr l0"
    and "fst (call_emit c ''pre-bootstrap'' (ConfigRef (config l0)) l0) = Inr (Fulfilled l1)"
    and "as_array c (plugins_or_empty (config l1)) = Some ps"
  shows "prefix (loaded (snd (bootstrap_body c sch options))) ps \<and>
         ((\<exists>pl. Emit ''post-bootstrap'' pl \<in> set (snd (bootstrap_body c sch options))) \<longrightarrow>
            loaded (snd (bootstrap_body c sch options)) = ps)"
proof -
  obtain t0 where s: "bootstrap_sync c options = (Inr l0, t0)"
    using assms(1) by (cases "bootstrap_sync c options") simp
  obtain t1 where m: "call_emit c ''pre-bootstrap'' (ConfigRef (config l0)) l0 =
      (Inr (Fulfilled l1), t1)"
    using assms(2) by (cases "call_emit c ''pre-bootstrap'' (ConfigRef (config l0)) l0") simp
  have t0: "loaded t0 = []"
    by (rule loaded_no_plugin) (auto dest: bootstrap_sync_events [OF s] setup_not_plugin)
  have t1: "loaded t1 = []"
    by (rule loaded_no_plugin) (auto dest: call_emit_events' [OF m])
  have no_post: "Emit ''post-bootstrap'' pl \<notin> set (t0 @ t1)" for pl
    by (auto dest: bootstrap_sync_events [OF s] call_emit_events' [OF m])
  obtain r2 t2 where mp: "map_plugins c sch ps l1 = (r2, t2)"
    by (cases "map_plugins c sch ps l1")
  have t2: "Emit ''post-bootstrap'' pl \<notin> set t2" for pl
    by (auto dest: map_plugins_events' [OF mp])
  show ?thesis
  proof (cases r2)
    case (Inl e)
    then have "snd (bootstrap_body c sch options) =
        t0 @ t1 @ Log ''debug'' ''Config set: %j'' # t2"
      using s m mp assms(3) by (simp add: bootstrap_body_def then_chain_def)
    with map_plugins_loaded [OF mp] t0 t1 t2 no_post show ?thesis
      by (auto simp: loaded_append)
  next
    case (Inr l2)
    obtain p t3 where pb: "post_bootstrap c l2 = (p, t3)" by (cases "post_bootstrap c l2")
    have "loaded t3 = []"
      by (rule loaded_no_plugin) (auto dest: post_bootstrap_events [OF pb])
    moreover have "snd (bootstrap_body c sch options) =
        t0 @ t1 @ Log ''debug'' ''Config set: %j'' # t2 @ t3"
      using s m mp assms(3) Inr pb by (simp add: bootstrap_body_def then_chain_def)
    ultimately show ?thesis
      using map_plugins_loaded [OF mp] t0 t1 Inr by (simp add: loaded_append)
  qed
qed

theorem plugin_list_read_after_pre_bootstrap_witness:
  "get_prop demo_plugins_options ''plugins'' = JArr [JStr ''p1'', JStr ''p2''] \<and>
   loaded (snd (bootstrap_body demo_mutating [] demo_plugins_options)) = [JStr ''late'']"
proof -
  let ?cfg = "[(''a'', JNum 1), (''b'', JNum 1), (''d'', JNum 1),
      (''x'', JObj [(''p'', JNum 1)]), (''userConfRoot'', JStr ''/home/u''),
      (''plugins'', JArr [JStr ''p1'', JStr ''p2'']), (''id'', JStr ''id:/home/u'')]"
  let ?l0 = "\<lparr>config = ?cfg, ext = []\<rparr> :: string list lando"
  let ?l1 = "\<lparr>config = set_prop ''plugins'' (JArr [JStr ''late'']) ?cfg, ext = []\<rparr>
      :: string list lando"
  have a: "fst (bootstrap_sync demo_mutating demo_plugins_options) = Inr ?l0"
    by (simp add: run_defs demo_mutating_def demo_plugins_options_def)
  have b: "fst (call_emit demo_mutating ''pre-bootstrap'' (ConfigRef (config ?l0)) ?l0) =
      Inr (Fulfilled ?l1)"
    by (simp add: run_defs demo_mutating_def add_plugin_handler_def)
  have c: "as_array demo_mutating (plugins_or_empty (config ?l1)) = Some [JStr ''late'']"
    by (simp add: run_defs)
  have d: "Emit ''post-bootstrap'' InstanceRef \<in>
      set (snd (bootstrap_body demo_mutating [] demo_plugins_options))"
    by (simp add: run_defs demo_mutating_def demo_plugins_options_def add_plugin_handler_def)
  have e: "get_prop demo_plugins_options ''plugins'' = JArr [JStr ''p1'', JStr ''p2'']"
    by (simp add: get_prop_def demo_plugins_options_def)
  from plugin_list_read_after_pre_bootstrap [OF a b c, of "[]"] d e show ?thesis
    by blast
qed

subsection \<open>Order of the lifecycle\<close>

lemma then_chain_fulfilled_end:
  assumes "then_chain c sch l1 = (Fulfilled l, t)"
  shows "\<exists>a. t = a @ [EmitDone ''post-bootstrap'', Log ''info'' ''Bootstrap completed.'']"
proof (cases rule: then_chain_cases [of c l1 sch])
  case Not_iterable
  with assms show ?thesis by simp
next
  case (Load_failed ps e t2)
  with assms show ?thesis by simp
next
  case (Loaded ps l2 t2 p' t3)
  show ?thesis
  proof (cases rule: post_bootstrap_cases [of c l2])
    case (Rejected e)
    with Loaded assms show ?thesis by auto
  next
    case (Fulfilled l3)
    with Loaded assms have
      "t = (Log ''debug'' ''Config set: %j'' # t2 @ [Emit ''post-bootstrap'' InstanceRef]) @
           [EmitDone ''post-bootstrap'', Log ''info'' ''Bootstrap completed.'']"
      by auto
    then show ?thesis by blast
  qed
qed

lemma bootstrap_body_lifecycle:
  "\<exists>st. lifecycle (Created, []) (snd (bootstrap_body c sch options)) = Some st \<and>
     (\<forall>l. fst (bootstrap_body c sch options) = Inr (Fulfilled l) \<longrightarrow> st = (Ready, []))"
proof (cases rule: bootstrap_body_cases [of c options sch])
  case (Sync_failed e t0)
  have "lifecycle (Created, []) t0 = Some (Created, [])"
    by (rule lifecycle_setup) (auto dest: bootstrap_sync_events [OF Sync_failed(1)])
  with Sync_failed show ?thesis by simp
next
  case (Pre_failed l0 t0 f t1)
  have t0: "lifecycle (Created, []) t0 = Some (Created, [])"
    by (rule lifecycle_setup) (auto dest: bootstrap_sync_events [OF Pre_failed(1)])
  from Pre_failed(2,3) have "t1 = [Emit ''pre-bootstrap'' (ConfigRef (config l0))]"
    by (cases rule: call_emit_cases [of c "''pre-bootstrap''" "ConfigRef (config l0)" l0]) auto
  with t0 Pre_failed show ?thesis by (auto simp: lifecycle_append)
next
  case (Chain l0 t0 l1 t1 p t2)
  have t0: "lifecycle (Created, []) t0 = Some (Created, [])"
    by (rule lifecycle_setup) (auto dest: bootstrap_sync_events [OF Chain(1)])
  from Chain(2) have "t1 = [Emit ''pre-bootstrap'' (ConfigRef (config l0)), EmitDone ''pre-bootstrap'']"
    by (cases rule: call_emit_cases [of c "''pre-bootstrap''" "ConfigRef (config l0)" l0]) auto
  with t0 have "lifecycle (Created, []) (t0 @ t1) = Some (PreDone, [])"
    by (simp add: lifecycle_append)
  with then_chain_lifecycle [OF Chain(3)] Chain(4) show ?thesis
    by (auto simp: lifecycle_append simp flip: append_assoc)
qed

lemma pre_bootstrap_payload:
  assumes "Emit ''pre-bootstrap'' pl \<in> set (snd (bootstrap_body c sch options))"
  shows "\<exists>l0. fst (bootstrap_sync c options) = Inr l0 \<and> pl = ConfigRef (config l0)"
proof (cases rule: bootstrap_body_cases [of c options sch])
  case (Sync_failed e t0)
  with assms bootstrap_sync_events [OF Sync_failed(1), of "Emit ''pre-bootstrap'' pl"]
  show ?thesis by simp
next
  case (Pre_failed l0 t0 f t1)
  with assms bootstrap_sync_events [OF Pre_failed(1), of "Emit ''pre-bootstrap'' pl"]
    call_emit_events' [OF Pre_failed(2), of "Emit ''pre-bootstrap'' pl"]
  show ?thesis by auto
next
  case (Chain l0 t0 l1 t1 p t2)
  with assms bootstrap_sync_events [OF Chain(1), of "Emit ''pre-bootstrap'' pl"]
    call_emit_events' [OF Chain(2), of "Emit ''pre-bootstrap'' pl"]
    then_chain_events [OF Chain(3), of "Emit ''pre-bootstrap'' pl"]
  show ?thesis by auto
qed

lemma fulfilled_end:
  assumes "fst (bootstrap_body c sch options) = Inr (Fulfilled l)"
  shows "\<exists>a. snd (bootstrap_body c sch options) =
           a @ [EmitDone ''post-bootstrap'', Log ''info'' ''Bootstrap completed.'']"
proof (cases rule: bootstrap_body_cases [of c options sch])
  case (Sync_failed e t0)
  with assms show ?thesis by simp
next
  case (Pre_failed l0 t0 f t1)
  with assms show ?thesis by simp
next
  case (Chain l0 t0 l1 t1 p t2)
  with assms have "then_chain c sch l1 = (Fulfilled l, t2)" by simp
  from then_chain_fulfilled_end [OF this] obtain a where
    "t2 = a @ [EmitDone ''post-bootstrap'', Log ''info'' ''Bootstrap completed.'']" by blast
  with Chain(4) have "snd (bootstrap_body c sch options) =
      (t0 @ t1 @ a) @ [EmitDone ''post-bootstrap'', Log ''info'' ''Bootstrap completed.'']"
    by simp
  then show ?thesis by blast
qed

lemma await_ran: "await segs l = Inr l' \<longleftrightarrow> handlers_ran segs l l'"
  by (induction segs arbitrary: l) (auto split: sum.splits)

lemma call_emit_fulfilled:
  "call_emit c name pl l = (Inr (Fulfilled l2), t) \<Longrightarrow>
   \<exists>la segs. emit c name pl l = Return la segs \<and> handlers_ran segs la l2"
  by (auto simp: call_emit_def await_ran [symmetric] split: call.splits sum.splits)

lemma then_chain_starts_loading:
  assumes "as_array c (plugins_or_empty (config l1)) = Some ps"
  shows "\<exists>rest. snd (then_chain c sch l1) =
           Log ''debug'' ''Config set: %j'' # snd (map_plugins c sch ps l1) @ rest"
proof (cases rule: then_chain_cases [of c l1 sch])
  case Not_iterable
  with assms show ?thesis by simp
next
  case (Load_failed ps' e t2)
  with assms show ?thesis by simp
next
  case (Loaded ps' l2 t2 p' t3)
  with assms show ?thesis by simp
qed

lemma pre_bootstrap_completed:
  assumes s: "fst (bootstrap_sync c options) = Inr l0"
    and e: "emit c ''pre-bootstrap'' (ConfigRef (config l0)) l0 = Return la segs"
    and d: "EmitDone ''pre-bootstrap'' \<in> set (snd (bootstrap_body c sch options))"
  shows "\<exists>l1. handlers_ran segs la l1 \<and>
           fst (bootstrap_body c sch options) = Inr (fst (then_chain c sch l1)) \<and>
           snd (bootstrap_body c sch options) =
             snd (bootstrap_sync c options) @
             [Emit ''pre-bootstrap'' (ConfigRef (config l0)), EmitDone ''pre-bootstrap''] @
             snd (then_chain c sch l1)"
proof (cases rule: bootstrap_body_cases [of c options sch])
  case (Sync_failed err t0)
  with s show ?thesis by simp
next
  case (Pre_failed l0' t0 f t1)
  with s have l0: "l0' = l0" by simp
  from Pre_failed(2,3) l0 have "t1 = [Emit ''pre-bootstrap'' (ConfigRef (config l0))]"
    by (cases rule: call_emit_cases [of c "''pre-bootstrap''" "ConfigRef (config l0)" l0]) auto
  with d Pre_failed(4) bootstrap_sync_events [OF Pre_failed(1), of "EmitDone ''pre-bootstrap''"]
  show ?thesis by auto
next
  case (Chain l0' t0 l1 t1 p t2)
  with s have l0: "l0' = l0" by simp
  from Chain(2) l0 have t1: "t1 = [Emit ''pre-bootstrap'' (ConfigRef (config l0)),
      EmitDone ''pre-bootstrap'']"
    by (cases rule: call_emit_cases [of c "''pre-bootstrap''" "ConfigRef (config l0)" l0]) auto
  from call_emit_fulfilled [OF Chain(2)] l0 e have "handlers_ran segs la l1" by auto
  with Chain t1 show ?thesis by auto
qed

lemma fulfilled_instance:
  assumes "fst (bootstrap_body c sch options) = Inr (Fulfilled l)"
  shows "\<exists>l0 la segs l1 ps l2 t2 lb segs'.
           fst (bootstrap_sync c options) = Inr l0 \<and>
           emit c ''pre-bootstrap'' (ConfigRef (config l0)) l0 = Return la segs \<and>
           handlers_ran segs la l1 \<and>
           as_array c (plugins_or_empty (config l1)) = Some ps \<and>
           map_plugins c sch ps l1 = (Inr l2, t2) \<and>
           emit c ''post-bootstrap'' InstanceRef l2 = Return lb segs' \<and>
           handlers_ran segs' lb l"
proof (cases rule: bootstrap_body_cases [of c options sch])
  case (Sync_failed e t0)
  with assms show ?thesis by simp
next
  case (Pre_failed l0 t0 f t1)
  with assms show ?thesis by simp
next
  case (Chain l0 t0 l1 t1 p t2)
  with assms have tc: "then_chain c sch l1 = (Fulfilled l, t2)" by simp
  from Chain(1) have s: "fst (bootstrap_sync c options) = Inr l0" by simp
  from call_emit_fulfilled [OF Chain(2)] obtain la segs where
    pre: "emit c ''pre-bootstrap'' (ConfigRef (config l0)) l0 = Return la segs"
      "handlers_ran segs la l1"
    by blast
  show ?thesis
  proof (cases rule: then_chain_cases [of c l1 sch])
    case Not_iterable
    with tc show ?thesis by simp
  next
    case (Load_failed ps e t2')
    with tc show ?thesis by simp
  next
    case (Loaded ps l2 t2' p' t3)
    with tc have pb: "post_bootstrap c l2 = (Fulfilled l, t3)" by simp
    have "\<exists>t. call_emit c ''post-bootstrap'' InstanceRef l2 = (Inr (Fulfilled l), t)"
      using pb by (cases rule: post_bootstrap_cases [of c l2]) auto
    then obtain t where "call_emit c ''post-bootstrap'' InstanceRef l2 = (Inr (Fulfilled l), t)"
      by blast
    from call_emit_fulfilled [OF this] obtain lb segs' where
      "emit c ''post-bootstrap'' InstanceRef l2 = Return lb segs'" "handlers_ran segs' lb l"
      by blast
    with s pre Loaded(1,2) show ?thesis by blast
  qed
qed

text \<open>
  C3. The bootstrap runs its stages in order, and each stage starts from what the stage
  before it left. The trace of every run, whatever the collaborators do and however the
  pending loads are scheduled, is accepted by the lifecycle monitor, and a run whose result
  is fulfilled with the Instance ends in phase \<open>Ready\<close>. In detail: the payload of
  \<open>pre-bootstrap\<close> is the config of the Instance just built; a plugin load is called only
  after the \<open>pre-bootstrap\<close> emission is done; when \<open>post-bootstrap\<close> is emitted its payload
  is the Instance, every load called has been completed, and no step of plugin loading
  follows; a fulfilled run ends with the completion of \<open>post-bootstrap\<close> and the closing
  log line. The emissions are awaited: when \<open>pre-bootstrap\<close> is done, every continuation of
  its handlers has run, in order, without an error, and the rest of the run is the chain
  started from the Instance they left, which begins by loading the plugins that this
  Instance lists; and the Instance that a fulfilled run yields is the one that the
  continuations of the \<open>post-bootstrap\<close> handlers left, after they were called with the
  Instance that the completed loads left, the loads having started from the Instance that
  the \<open>pre-bootstrap\<close> handlers left.
\<close>

theorem lifecycle_order:
  "(\<exists>st. lifecycle (Created, []) (snd (bootstrap_body c sch options)) = Some st \<and>
      (\<forall>l. fst (bootstrap_body c sch options) = Inr (Fulfilled l) \<longrightarrow> st = (Ready, []))) \<and>
   (\<forall>pl. Emit ''pre-bootstrap'' pl \<in> set (snd (bootstrap_body c sch options)) \<longrightarrow>
      (\<exists>l0. fst (bootstrap_sync c options) = Inr l0 \<and> pl = ConfigRef (config l0))) \<and>
   (\<forall>a p dirs b. snd (bootstrap_body c sch options) = a @ LoadCall p dirs # b \<longrightarrow>
      EmitDone ''pre-bootstrap'' \<in> set a) \<and>
   (\<forall>a pl b. snd (bootstrap_body c sch options) = a @ Emit ''post-bootstrap'' pl # b \<longrightarrow>
      pl = InstanceRef \<and> mset (completed a) = mset (loaded a) \<and>
      (\<forall>e\<in>set b. \<not> plugin_event e)) \<and>
   (\<forall>l. fst (bootstrap_body c sch options) = Inr (Fulfilled l) \<longrightarrow>
      (\<exists>a. snd (bootstrap_body c sch options) =
         a @ [EmitDone ''post-bootstrap'', Log ''info'' ''Bootstrap completed.''])) \<and>
   (\<forall>l0 la segs. fst (bootstrap_sync c options) = Inr l0 \<and>
      emit c ''pre-bootstrap'' (ConfigRef (config l0)) l0 = Return la segs \<and>
      EmitDone ''pre-bootstrap'' \<in> set (snd (bootstrap_body c sch options)) \<longrightarrow>
      (\<exists>l1. handlers_ran segs la l1 \<and>
         fst (bootstrap_body c sch options) = Inr (fst (then_chain c sch l1)) \<and>
         snd (bootstrap_body c sch options) =
           snd (bootstrap_sync c options) @
           [Emit ''pre-bootstrap'' (ConfigRef (config l0)), EmitDone ''pre-bootstrap''] @
           snd (then_chain c sch l1) \<and>
         (\<forall>ps. as_array c (plugins_or_empty (config l1)) = Some ps \<longrightarrow>
            (\<exists>rest. snd (then_chain c sch l1) =
               Log ''debug'' ''Config set: %j'' # snd (map_plugins c sch ps l1) @ rest)))) \<and>
   (\<forall>l. fst (bootstrap_body c sch options) = Inr (Fulfilled l) \<longrightarrow>
      (\<exists>l0 la segs l1 ps l2 t2 lb segs'.
         fst (bootstrap_sync c options) = Inr l0 \<and>
         emit c ''pre-bootstrap'' (ConfigRef (config l0)) l0 = Return la segs \<and>
         handlers_ran segs la l1 \<and>
         as_array c (plugins_or_empty (config l1)) = Some ps \<and>
         map_plugins c sch ps l1 = (Inr l2, t2) \<and>
         emit c ''post-bootstrap'' InstanceRef l2 = Return lb segs' \<and>
         handlers_ran segs' lb l))"
proof -
  let ?tr = "snd (bootstrap_body c sch options)"
  from bootstrap_body_lifecycle [of c sch options] obtain st where
    acc: "lifecycle (Created, []) ?tr = Some st"
    and fin: "\<forall>l. fst (bootstrap_body c sch options) = Inr (Fulfilled l) \<longrightarrow> st = (Ready, [])"
    by blast
  have load: "EmitDone ''pre-bootstrap'' \<in> set a" if "?tr = a @ LoadCall p dirs # b" for a p dirs b
  proof -
    from acc that obtain ph out where a: "lifecycle (Created, []) a = Some (ph, out)"
      and s: "lifecycle_step (ph, out) (LoadCall p dirs) \<noteq> None"
      by (auto simp: lifecycle_append split: option.splits)
    from s have "ph = PreDone" by (auto split: if_splits)
    with lifecycle_pre_done [OF a] show ?thesis by simp
  qed
  have post: "pl = InstanceRef \<and> mset (completed a) = mset (loaded a) \<and>
      (\<forall>e\<in>set b. \<not> plugin_event e)"
    if "?tr = a @ Emit ''post-bootstrap'' pl # b" for a pl b
  proof -
    from acc that obtain ph out s1 where a: "lifecycle (Created, []) a = Some (ph, out)"
      and s: "lifecycle_step (ph, out) (Emit ''post-bootstrap'' pl) = Some s1"
      and b: "lifecycle s1 b = Some st"
      by (auto simp: lifecycle_append split: option.splits)
    from s have pl: "pl = InstanceRef" and out: "out = []" and s1: "s1 = (PostEmitted, [])"
      by (auto split: if_splits)
    from lifecycle_balance [OF a] out have "mset (completed a) = mset (loaded a)" by simp
    moreover from lifecycle_after_post [of PostEmitted "[]" b st] b s1
    have "\<forall>e\<in>set b. \<not> plugin_event e" by simp
    ultimately show ?thesis using pl by simp
  qed
  have marks:
    "(\<exists>st. lifecycle (Created, []) ?tr = Some st \<and>
        (\<forall>l. fst (bootstrap_body c sch options) = Inr (Fulfilled l) \<longrightarrow> st = (Ready, []))) \<and>
     (\<forall>pl. Emit ''pre-bootstrap'' pl \<in> set ?tr \<longrightarrow>
        (\<exists>l0. fst (bootstrap_sync c options) = Inr l0 \<and> pl = ConfigRef (config l0))) \<and>
     (\<forall>a p dirs b. ?tr = a @ LoadCall p dirs # b \<longrightarrow> EmitDone ''pre-bootstrap'' \<in> set a) \<and>
     (\<forall>a pl b. ?tr = a @ Emit ''post-bootstrap'' pl # b \<longrightarrow>
        pl = InstanceRef \<and> mset (completed a) = mset (loaded a) \<and>
        (\<forall>e\<in>set b. \<not> plugin_event e)) \<and>
     (\<forall>l. fst (bootstrap_body c sch options) = Inr (Fulfilled l) \<longrightarrow>
        (\<exists>a. ?tr = a @ [EmitDone ''post-bootstrap'', Log ''info'' ''Bootstrap completed.'']))"
    using acc fin pre_bootstrap_payload [of _ c sch options] load post
      fulfilled_end [of c sch options]
    by blast
  have pre: "\<exists>l1. handlers_ran segs la l1 \<and>
         fst (bootstrap_body c sch options) = Inr (fst (then_chain c sch l1)) \<and>
         ?tr = snd (bootstrap_sync c options) @
           [Emit ''pre-bootstrap'' (ConfigRef (config l0)), EmitDone ''pre-bootstrap''] @
           snd (then_chain c sch l1) \<and>
         (\<forall>ps. as_array c (plugins_or_empty (config l1)) = Some ps \<longrightarrow>
            (\<exists>rest. snd (then_chain c sch l1) =
               Log ''debug'' ''Config set: %j'' # snd (map_plugins c sch ps l1) @ rest))"
    if "fst (bootstrap_sync c options) = Inr l0 \<and>
      emit c ''pre-bootstrap'' (ConfigRef (config l0)) l0 = Return la segs \<and>
      EmitDone ''pre-bootstrap'' \<in> set ?tr" for l0 la segs
  proof -
    from that pre_bootstrap_completed [of c options l0 la segs sch]
    obtain l1 where l1: "handlers_ran segs la l1"
      "fst (bootstrap_body c sch options) = Inr (fst (then_chain c sch l1))"
      "?tr = snd (bootstrap_sync c options) @
           [Emit ''pre-bootstrap'' (ConfigRef (config l0)), EmitDone ''pre-bootstrap''] @
           snd (then_chain c sch l1)"
      by blast
    with then_chain_starts_loading [of c l1 _ sch] show ?thesis by blast
  qed
  have inst: "\<exists>l0 la segs l1 ps l2 t2 lb segs'.
         fst (bootstrap_sync c options) = Inr l0 \<and>
         emit c ''pre-bootstrap'' (ConfigRef (config l0)) l0 = Return la segs \<and>
         handlers_ran segs la l1 \<and>
         as_array c (plugins_or_empty (config l1)) = Some ps \<and>
         map_plugins c sch ps l1 = (Inr l2, t2) \<and>
         emit c ''post-bootstrap'' InstanceRef l2 = Return lb segs' \<and>
         handlers_ran segs' lb l"
    if "fst (bootstrap_body c sch options) = Inr (Fulfilled l)" for l
    using that by (rule fulfilled_instance)
  show ?thesis
    apply (intro conjI)
    using marks apply blast
    using marks apply blast
    using marks apply blast
    using marks apply blast
    using marks apply blast
    using pre apply blast
    using inst apply blast
    done
qed

theorem lifecycle_order_witness:
  "bootstrap_body demo_full [] demo_plugins_options =
     (Inr (Fulfilled
        \<lparr>config = demo_plugins_config @ [(''pluginDirs'', JArr [JStr ''/late''])],
           ext = [''p1:begin'', ''p2:begin'', ''p1:end'', ''p2:end'', ''post'']\<rparr>),
      demo_setup_trace @
      [LoadCall (JStr ''p1'') (JArr [JStr ''/late'']),
       LoadCall (JStr ''p2'') (JArr [JStr ''/late'']),
       LoadDone (JStr ''p1''), LoadDone (JStr ''p2''),
       Emit ''post-bootstrap'' InstanceRef, EmitDone ''post-bootstrap'',
       Log ''info'' ''Bootstrap completed.'']) \<and>
   lifecycle (Created, []) (snd (bootstrap_body demo_full [] demo_plugins_options)) =
     Some (Ready, []) \<and>
   EmitDone ''pre-bootstrap'' \<in> set demo_setup_trace \<and>
   mset (completed (demo_setup_trace @
      [LoadCall (JStr ''p1'') (JArr [JStr ''/late'']),
       LoadCall (JStr ''p2'') (JArr [JStr ''/late'']),
       LoadDone (JStr ''p1''), LoadDone (JStr ''p2'')])) =
   mset (loaded (demo_setup_trace @
      [LoadCall (JStr ''p1'') (JArr [JStr ''/late'']),
       LoadCall (JStr ''p2'') (JArr [JStr ''/late'']),
       LoadDone (JStr ''p1''), LoadDone (JStr ''p2'')])) \<and>
   (\<exists>l1. handlers_ran [set_dirs_handler] \<lparr>config = demo_plugins_config, ext = []\<rparr> l1 \<and>
      fst (bootstrap_body demo_full [] demo_plugins_options) =
        Inr (fst (then_chain demo_full [] l1)) \<and>
      snd (bootstrap_body demo_full [] demo_plugins_options) =
        snd (bootstrap_sync demo_full demo_plugins_options) @
        [Emit ''pre-bootstrap'' (ConfigRef demo_plugins_config), EmitDone ''pre-bootstrap''] @
        snd (then_chain demo_full [] l1)) \<and>
   (\<exists>l0 la segs l1 ps l2 t2 lb segs'.
      fst (bootstrap_sync demo_full demo_plugins_options) = Inr l0 \<and>
      emit demo_full ''pre-bootstrap'' (ConfigRef (config l0)) l0 = Return la segs \<and>
      handlers_ran segs la l1 \<and>
      as_array demo_full (plugins_or_empty (config l1)) = Some ps \<and>
      map_plugins demo_full [] ps l1 = (Inr l2, t2) \<and>
      emit demo_full ''post-bootstrap'' InstanceRef l2 = Return lb segs' \<and>
      handlers_ran segs' lb
        \<lparr>config = demo_plugins_config @ [(''pluginDirs'', JArr [JStr ''/late''])],
           ext = [''p1:begin'', ''p2:begin'', ''p1:end'', ''p2:end'', ''post'']\<rparr>)"
proof -
  let ?l0 = "\<lparr>config = demo_plugins_config, ext = []\<rparr> :: string list lando"
  let ?l3 = "\<lparr>config = demo_plugins_config @ [(''pluginDirs'', JArr [JStr ''/late''])],
      ext = [''p1:begin'', ''p2:begin'', ''p1:end'', ''p2:end'', ''post'']\<rparr> :: string list lando"
  let ?loads = "[LoadCall (JStr ''p1'') (JArr [JStr ''/late'']),
       LoadCall (JStr ''p2'') (JArr [JStr ''/late'']),
       LoadDone (JStr ''p1''), LoadDone (JStr ''p2'')]"
  let ?body = "bootstrap_body demo_full [] demo_plugins_options"
  have run: "?body =
     (Inr (Fulfilled ?l3),
      demo_setup_trace @ ?loads @
      [Emit ''post-bootstrap'' InstanceRef, EmitDone ''post-bootstrap'',
       Log ''info'' ''Bootstrap completed.''])"
    by (simp add: run_defs demo_full_def demo_async_def demo_plugins_options_def
        finish_registration_def set_dirs_handler_def mark_post_handler_def
        demo_plugins_config_def demo_setup_trace_def)
  have ful: "fst ?body = Inr (Fulfilled ?l3)"
    by (simp add: run)
  have d1: "snd ?body = demo_setup_trace @ LoadCall (JStr ''p1'') (JArr [JStr ''/late'']) #
        [LoadCall (JStr ''p2'') (JArr [JStr ''/late'']), LoadDone (JStr ''p1''),
         LoadDone (JStr ''p2''),
         Emit ''post-bootstrap'' InstanceRef, EmitDone ''post-bootstrap'',
         Log ''info'' ''Bootstrap completed.'']"
    by (simp add: run)
  have d2: "snd ?body = (demo_setup_trace @ ?loads) @ Emit ''post-bootstrap'' InstanceRef #
        [EmitDone ''post-bootstrap'', Log ''info'' ''Bootstrap completed.'']"
    by (simp add: run)
  have sync: "fst (bootstrap_sync demo_full demo_plugins_options) = Inr ?l0"
    by (simp add: run_defs demo_full_def demo_async_def demo_plugins_options_def
        demo_plugins_config_def)
  have em: "emit demo_full ''pre-bootstrap'' (ConfigRef (config ?l0)) ?l0 =
      Return ?l0 [set_dirs_handler]"
    by (simp add: demo_full_def demo_async_def demo_def)
  have predone: "EmitDone ''pre-bootstrap'' \<in> set (snd ?body)"
    by (simp add: run demo_setup_trace_def)
  note inst = lifecycle_order [of demo_full "[]" demo_plugins_options]
  from inst ful have acc: "lifecycle (Created, []) (snd ?body) = Some (Ready, [])"
    by blast
  from inst d1 have pre: "EmitDone ''pre-bootstrap'' \<in> set demo_setup_trace"
    by blast
  from inst d2 have bal: "mset (completed (demo_setup_trace @ ?loads)) =
      mset (loaded (demo_setup_trace @ ?loads))"
    by blast
  from inst sync em predone
  have ran: "\<exists>l1. handlers_ran [set_dirs_handler] ?l0 l1 \<and>
      fst ?body = Inr (fst (then_chain demo_full [] l1)) \<and>
      snd ?body = snd (bootstrap_sync demo_full demo_plugins_options) @
        [Emit ''pre-bootstrap'' (ConfigRef (config ?l0)), EmitDone ''pre-bootstrap''] @
        snd (then_chain demo_full [] l1)"
    by blast
  from inst ful
  have fin: "\<exists>l0 la segs l1 ps l2 t2 lb segs'.
      fst (bootstrap_sync demo_full demo_plugins_options) = Inr l0 \<and>
      emit demo_full ''pre-bootstrap'' (ConfigRef (config l0)) l0 = Return la segs \<and>
      handlers_ran segs la l1 \<and>
      as_array demo_full (plugins_or_empty (config l1)) = Some ps \<and>
      map_plugins demo_full [] ps l1 = (Inr l2, t2) \<and>
      emit demo_full ''post-bootstrap'' InstanceRef l2 = Return lb segs' \<and>
      handlers_ran segs' lb ?l3"
    by blast
  from run acc pre bal ran fin show ?thesis
    by simp
qed

end
